theory Spec2Isabelle
  imports Main "HOL-Library.Multiset"
begin

section \<open>The task store of \<open>src/app/actions.ts\<close>\<close>

text \<open>
  The module \<open>actions.ts\<close> consists of four exported server actions and one helper.
  Each of them sends SQL text to a relational store. The embedding below gives every SQL
  statement of the source the meaning the store gives it, on an explicit store state that
  is passed in and returned:

  \<^item> the table \<open>tasks\<close> may or may not exist (\<open>CREATE TABLE IF NOT EXISTS\<close>);
  \<^item> a row has the four declared columns; all four are \<open>NOT NULL\<close>, so a field is a
    value and never absent;
  \<^item> \<open>id SERIAL\<close> is a 32-bit integer column fed by a sequence owned by the table; the
    sequence hands out \<open>last_value + 1\<close>, refuses to go beyond \<open>2147483647\<close> and is never
    moved back;
  \<^item> \<open>VARCHAR(n)\<close> accepts a string of at most \<open>n\<close> characters; a longer string is
    refused, unless every character beyond the \<open>n\<close>-th is a space, in which case the
    string is cut to \<open>n\<close> characters;
  \<^item> a text parameter that holds the character U+0000 is refused when the parameters
    are bound, before the statement is planned or run;
  \<^item> \<open>NOW()\<close> is the reading of the store's clock when the statement runs; that reading
    is an input of the model (a parameter \<open>now\<close>), and nothing is assumed about it;
  \<^item> an error raised by the store is the rejected promise of \<open>pool.query\<close>; none of the
    functions catches it, so it is the result of the function (\<open>Inl\<close>).

  A string is a list of characters; one list element is one character of the store's
  count, and \<open>CHR 0x00\<close> is the character U+0000.
  Failures of the surroundings (no connection, no permission, no disk space) and calls
  that overlap in time are not part of the model: a call runs from start to end on the
  store it is given.
\<close>

subsection \<open>Data\<close>

type_synonym timestamp = int

text \<open>
  The type \<open>Task\<close> declared in the source (lines 9 to 13). Its fields \<open>id\<close>, \<open>title\<close>
  and \<open>status\<close> carry the prefix \<open>task_\<close> here: the columns of a row have the same names
  and other types.
\<close>

datatype task_status = IN_PROGRESS | COMPLETE

record Task =
  task_id :: string
  task_title :: string
  task_status :: task_status

text \<open>The text the driver sends for a value of the union type \<open>'IN_PROGRESS' | 'COMPLETE'\<close>.\<close>

fun status_text :: "task_status \<Rightarrow> string" where
  "status_text IN_PROGRESS = ''IN_PROGRESS''"
| "status_text COMPLETE = ''COMPLETE''"

text \<open>
  A row of the table \<open>tasks\<close> (lines 30 to 36): \<open>id SERIAL\<close>, \<open>created_at timestamp\<close>,
  \<open>status VARCHAR(255)\<close>, \<open>title VARCHAR(1024)\<close>. The column \<open>id\<close> is called \<open>row_id\<close>
  here, because \<open>id\<close> is the identity function of HOL.
\<close>

record row =
  row_id :: int
  created_at :: timestamp
  status :: string
  title :: string

text \<open>
  The table with the sequence that \<open>SERIAL\<close> creates for it. The list \<open>rows\<close> is in
  physical order: an insert appends, an update rewrites in place, a delete removes.
\<close>

record tasks_table =
  rows :: "row list"
  last_value :: int

type_synonym store = "tasks_table option"

definition stored_rows :: "store \<Rightarrow> row list" where
  "stored_rows s = (case s of None \<Rightarrow> [] | Some t \<Rightarrow> rows t)"

datatype error =
    UndefinedTable
  | CharacterNotInRepertoire
  | StringDataRightTruncation nat
  | InvalidTextRepresentation string
  | NumericValueOutOfRange string
  | SequenceExhausted
  | UniqueViolation int

text \<open>
  What an awaited call yields: the value or the error, and the store afterwards.
  \<open>and_then\<close> is \<open>await a; b\<close>: when the first call rejects, the second one never runs.
\<close>

type_synonym 'a outcome = "(error + 'a) \<times> store"

definition and_then :: "'a outcome \<Rightarrow> (store \<Rightarrow> 'b outcome) \<Rightarrow> 'b outcome" where
  "and_then a f = (case a of (Inl e, s) \<Rightarrow> (Inl e, s) | (Inr _, s) \<Rightarrow> f s)"

subsection \<open>Column types\<close>

definition serial_max :: int where
  "serial_max = 2147483647"

text \<open>
  Binding a text parameter: text that holds U+0000 is no text for the store, whatever
  the type of the parameter.
\<close>

definition bind_text :: "string \<Rightarrow> error + string" where
  "bind_text v = (if CHR 0x00 \<in> set v then Inl CharacterNotInRepertoire else Inr v)"

text \<open>Assignment of a string to a column of type \<open>VARCHAR(n)\<close>.\<close>

definition varchar_coerce :: "nat \<Rightarrow> string \<Rightarrow> error + string" where
  "varchar_coerce n v =
     (if length v \<le> n then Inr v
      else if list_all (\<lambda>c. c = CHR '' '') (drop n v) then Inr (take n v)
      else Inl (StringDataRightTruncation n))"

text \<open>
  The source passes \<open>task.id\<close> and \<open>taskId\<close>, both of type \<open>string\<close>, for a parameter that
  is compared with the integer column \<open>id\<close>. The store reads such a parameter as a
  32-bit integer: white space, an optional sign, decimal digits, white space. Text of
  another shape is refused, and so is a number outside the 32-bit range. (The decimal
  notation is the one every version of the store reads; text without a digit, such as
  \<open>abc\<close>, is refused by all of them.)
\<close>

definition is_space :: "char \<Rightarrow> bool" where
  "is_space c = (c \<in> set [CHR '' '', CHR 0x09, CHR 0x0A, CHR 0x0B, CHR 0x0C, CHR 0x0D])"

definition is_digit :: "char \<Rightarrow> bool" where
  "is_digit c = (c \<in> set ''0123456789'')"

definition digit_value :: "char \<Rightarrow> int" where
  "digit_value c = int (length (takeWhile (\<lambda>d. d \<noteq> c) ''0123456789''))"

definition digits_value :: "string \<Rightarrow> int" where
  "digits_value ds = foldl (\<lambda>v c. 10 * v + digit_value c) 0 ds"

definition trim :: "string \<Rightarrow> string" where
  "trim v = rev (dropWhile is_space (rev (dropWhile is_space v)))"

definition int4in :: "string \<Rightarrow> error + int" where
  "int4in v =
     (let body = trim v;
          neg = (body \<noteq> [] \<and> hd body = CHR ''-'');
          ds = (if body \<noteq> [] \<and> (hd body = CHR ''-'' \<or> hd body = CHR ''+'') then tl body else body)
      in if ds = [] \<or> \<not> list_all is_digit ds then Inl (InvalidTextRepresentation v)
         else let n = (if neg then - digits_value ds else digits_value ds)
              in if n < - 2147483648 \<or> 2147483647 < n then Inl (NumericValueOutOfRange v)
                 else Inr n)"

text \<open>Binding a parameter of integer type: the text is bound, then read.\<close>

definition bind_int4 :: "string \<Rightarrow> error + int" where
  "bind_int4 v = (case bind_text v of Inl e \<Rightarrow> Inl e | Inr w \<Rightarrow> int4in w)"

subsection \<open>The SQL statements\<close>

text \<open>
  Lines 29 to 37: \<open>CREATE TABLE IF NOT EXISTS tasks (...)\<close>. An existing table is left as
  it is; a missing one is created empty, with a fresh sequence.
\<close>

definition tableCreationIfDoesNotExist :: "store \<Rightarrow> unit outcome" where
  "tableCreationIfDoesNotExist s =
     (case s of
        None \<Rightarrow> (Inr (), Some \<lparr>rows = [], last_value = 0\<rparr>)
      | Some t \<Rightarrow> (Inr (), Some t))"

text \<open>
  Line 42: \<open>INSERT INTO tasks(created_at, status, title) VALUES(NOW(), 'IN_PROGRESS', $1)\<close>.
  The parameter is bound first. The parameter and the literal are then fitted to their
  columns when the statement is planned, before a value is drawn from the sequence; a
  value that has been drawn stays drawn when \<open>PRIMARY KEY (id)\<close> then refuses the row.
\<close>

definition insert_task :: "timestamp \<Rightarrow> string \<Rightarrow> store \<Rightarrow> unit outcome" where
  "insert_task now p1 s =
     (case s of
        None \<Rightarrow> (Inl UndefinedTable, s)
      | Some t \<Rightarrow>
          (case varchar_coerce 255 ''IN_PROGRESS'' of
             Inl e \<Rightarrow> (Inl e, s)
           | Inr st \<Rightarrow>
               (case bind_text p1 of
                  Inl e \<Rightarrow> (Inl e, s)
                | Inr v1 \<Rightarrow>
                    (case varchar_coerce 1024 v1 of
                       Inl e \<Rightarrow> (Inl e, s)
                     | Inr ttl \<Rightarrow>
                         if serial_max \<le> last_value t then (Inl SequenceExhausted, s)
                         else
                           let n = last_value t + 1 in
                           if n \<in> set (map row_id (rows t))
                           then (Inl (UniqueViolation n), Some (t\<lparr>last_value := n\<rparr>))
                           else (Inr (),
                                 Some \<lparr>rows = rows t @
                                         [\<lparr>row_id = n, created_at = now, status = st,
                                           title = ttl\<rparr>],
                                       last_value = n\<rparr>)))))"

text \<open>
  Line 49: \<open>SELECT id, created_at, status, title FROM tasks ORDER BY created_at DESC LIMIT 100\<close>.
  The sort is by descending \<open>created_at\<close>; rows with equal \<open>created_at\<close> stay in physical
  order. The store promises no order among such rows; what is proved below about the
  order of a list speaks of \<open>created_at\<close> only, or of rows whose \<open>created_at\<close> differ.
\<close>

definition select_tasks :: "store \<Rightarrow> (row list) outcome" where
  "select_tasks s =
     (case s of
        None \<Rightarrow> (Inl UndefinedTable, s)
      | Some t \<Rightarrow> (Inr (take 100 (sort_key (\<lambda>r. - created_at r) (rows t))), s))"

text \<open>
  Line 57: \<open>UPDATE tasks SET status = $1, title = $2 WHERE id = $3\<close>. The parameters are
  bound in their order, \<open>$3\<close> as an integer; \<open>$1\<close> and \<open>$2\<close> are then fitted to their
  columns when the statement is planned, whether or not a row matches.
\<close>

definition update_task :: "string \<Rightarrow> string \<Rightarrow> string \<Rightarrow> store \<Rightarrow> unit outcome" where
  "update_task p1 p2 p3 s =
     (case s of
        None \<Rightarrow> (Inl UndefinedTable, s)
      | Some t \<Rightarrow>
          (case bind_text p1 of
             Inl e \<Rightarrow> (Inl e, s)
           | Inr v1 \<Rightarrow>
               (case bind_text p2 of
                  Inl e \<Rightarrow> (Inl e, s)
                | Inr v2 \<Rightarrow>
                    (case bind_int4 p3 of
                       Inl e \<Rightarrow> (Inl e, s)
                     | Inr n \<Rightarrow>
                         (case varchar_coerce 255 v1 of
                            Inl e \<Rightarrow> (Inl e, s)
                          | Inr st \<Rightarrow>
                              (case varchar_coerce 1024 v2 of
                                 Inl e \<Rightarrow> (Inl e, s)
                               | Inr ttl \<Rightarrow>
                                   (Inr (),
                                    Some (t\<lparr>rows :=
                                      map (\<lambda>r. if row_id r = n
                                                then r\<lparr>status := st, title := ttl\<rparr>
                                                else r)
                                        (rows t)\<rparr>))))))))"

text \<open>Line 66: \<open>DELETE FROM tasks WHERE id = $1\<close>.\<close>

definition delete_task :: "string \<Rightarrow> store \<Rightarrow> unit outcome" where
  "delete_task p1 s =
     (case s of
        None \<Rightarrow> (Inl UndefinedTable, s)
      | Some t \<Rightarrow>
          (case bind_int4 p1 of
             Inl e \<Rightarrow> (Inl e, s)
           | Inr n \<Rightarrow> (Inr (), Some (t\<lparr>rows := filter (\<lambda>r. row_id r \<noteq> n) (rows t)\<rparr>))))"

subsection \<open>The four server actions\<close>

text \<open>Lines 40 to 44.\<close>

definition addNewTaskToDatabase :: "timestamp \<Rightarrow> string \<Rightarrow> store \<Rightarrow> unit outcome" where
  "addNewTaskToDatabase now newTask s =
     and_then (tableCreationIfDoesNotExist s) (insert_task now newTask)"

text \<open>Lines 47 to 51.\<close>

definition getTasksFromDatabase :: "store \<Rightarrow> (row list) outcome" where
  "getTasksFromDatabase s = and_then (tableCreationIfDoesNotExist s) select_tasks"

text \<open>Lines 54 to 61.\<close>

definition updateTaskInDatabase :: "Task \<Rightarrow> store \<Rightarrow> unit outcome" where
  "updateTaskInDatabase task s =
     and_then (tableCreationIfDoesNotExist s)
       (update_task (status_text (task_status task)) (task_title task) (task_id task))"

text \<open>Lines 64 to 67.\<close>

definition deleteTaskFromDatabase :: "string \<Rightarrow> store \<Rightarrow> unit outcome" where
  "deleteTaskFromDatabase taskId s =
     and_then (tableCreationIfDoesNotExist s) (delete_task taskId)"

subsection \<open>Sequences of calls\<close>

text \<open>
  A caller of the module makes one call after another. \<open>exec\<close> is the store after one
  call, whatever the call returned or raised; \<open>run\<close> is the store after a list of calls.
  \<open>EnsureSchema\<close> stands for a call of the helper on its own.
\<close>

datatype call =
    AddTask timestamp string
  | ListTasks
  | UpdateTask Task
  | DeleteTask string
  | EnsureSchema

fun exec :: "call \<Rightarrow> store \<Rightarrow> store" where
  "exec (AddTask now newTask) s = snd (addNewTaskToDatabase now newTask s)"
| "exec ListTasks s = snd (getTasksFromDatabase s)"
| "exec (UpdateTask task) s = snd (updateTaskInDatabase task s)"
| "exec (DeleteTask taskId) s = snd (deleteTaskFromDatabase taskId s)"
| "exec EnsureSchema s = snd (tableCreationIfDoesNotExist s)"

definition run :: "call list \<Rightarrow> store \<Rightarrow> store" where
  "run cs s = fold exec cs s"

text \<open>
  Inserting several tasks, each with the clock reading of its own insert; the first
  call that raises ends the sequence.
\<close>

fun add_tasks :: "(timestamp \<times> string) list \<Rightarrow> store \<Rightarrow> error + store" where
  "add_tasks [] s = Inr s"
| "add_tasks ((now, newTask) # xs) s =
     (case addNewTaskToDatabase now newTask s of
        (Inl e, _) \<Rightarrow> Inl e
      | (Inr _, s1) \<Rightarrow> add_tasks xs s1)"

subsection \<open>Properties of a store\<close>

definition seq_value :: "store \<Rightarrow> int" where
  "seq_value s = (case s of None \<Rightarrow> 0 | Some t \<Rightarrow> last_value t)"

text \<open>
  The ids grow along the physical order, and none is beyond the last value drawn from
  the sequence.
\<close>

definition ids_inv :: "store \<Rightarrow> bool" where
  "ids_inv s =
     (sorted_wrt (<) (map row_id (stored_rows s)) \<and>
      list_all (\<lambda>r. row_id r \<le> seq_value s) (stored_rows s))"

definition status_inv :: "store \<Rightarrow> bool" where
  "status_inv s =
     list_all (\<lambda>r. status r = ''IN_PROGRESS'' \<or> status r = ''COMPLETE'') (stored_rows s)"

definition descending :: "row list \<Rightarrow> bool" where
  "descending rs = sorted_wrt (\<lambda>a b. created_at b \<le> created_at a) rs"

definition strictly_descending :: "row list \<Rightarrow> bool" where
  "strictly_descending rs = sorted_wrt (\<lambda>a b. created_at b < created_at a) rs"

subsection \<open>The page of \<open>app/page.tsx\<close>\<close>

text \<open>
  The component \<open>Home\<close> (in \<open>README.md\<close>, lines 247 to 333) holds two pieces of state,
  \<open>newTaskTitle\<close> and \<open>tasks\<close>, and three handlers. A handler is a list of awaited
  statements; \<open>perform\<close> runs them in order and records, for every statement that ran,
  what it yielded and the page and store right after it. A statement that raises is
  the last one to run.
\<close>

record page =
  newTaskTitle :: string
  tasks :: "row list"

type_synonym world = "page \<times> store"

type_synonym statement = "world \<Rightarrow> error option \<times> world"

fun perform :: "statement list \<Rightarrow> world \<Rightarrow> (error option \<times> world) list" where
  "perform [] w = []"
| "perform (f # fs) w =
     (case f w of
        (Some e, w1) \<Rightarrow> [(Some e, w1)]
      | (None, w1) \<Rightarrow> (None, w1) # perform fs w1)"

text \<open>A server action called from the page: its value is dropped, its error is kept.\<close>

definition call_action :: "(store \<Rightarrow> unit outcome) \<Rightarrow> statement" where
  "call_action a w =
     (case a (snd w) of
        (Inl e, s1) \<Rightarrow> (Some e, (fst w, s1))
      | (Inr _, s1) \<Rightarrow> (None, (fst w, s1)))"

text \<open>\<open>getTasks\<close> (lines 251 to 254): fetch the list, then \<open>setTasks\<close>.\<close>

definition getTasks :: statement where
  "getTasks w =
     (case getTasksFromDatabase (snd w) of
        (Inl e, s1) \<Rightarrow> (Some e, (fst w, s1))
      | (Inr updatedListOfTasks, s1) \<Rightarrow> (None, ((fst w)\<lparr>tasks := updatedListOfTasks\<rparr>, s1)))"

definition setNewTaskTitle :: "string \<Rightarrow> statement" where
  "setNewTaskTitle v w = (None, ((fst w)\<lparr>newTaskTitle := v\<rparr>, snd w))"

text \<open>
  \<open>handleSubmit\<close> (lines 260 to 265): the title sent is the one the page held when the
  handler started; \<open>e.preventDefault()\<close> touches neither the page state nor the store.
\<close>

definition handleSubmit :: "timestamp \<Rightarrow> world \<Rightarrow> (error option \<times> world) list" where
  "handleSubmit now w =
     perform [call_action (addNewTaskToDatabase now (newTaskTitle (fst w))),
              getTasks,
              setNewTaskTitle []] w"

text \<open>
  \<open>updateTask\<close> (lines 267 to 270) and \<open>deleteTask\<close> (lines 272 to 275), with
  \<open>Partial<Task>\<close> and the spread \<open>{ ...task, ...newTaskValues }\<close>.
\<close>

record Partial_Task =
  new_id :: "string option"
  new_title :: "string option"
  new_status :: "task_status option"

definition spread :: "Task \<Rightarrow> Partial_Task \<Rightarrow> Task" where
  "spread task newTaskValues =
     \<lparr>task_id = (case new_id newTaskValues of None \<Rightarrow> task_id task | Some v \<Rightarrow> v),
      task_title = (case new_title newTaskValues of None \<Rightarrow> task_title task | Some v \<Rightarrow> v),
      task_status = (case new_status newTaskValues of None \<Rightarrow> task_status task | Some v \<Rightarrow> v)\<rparr>"

definition updateTask :: "Task \<Rightarrow> Partial_Task \<Rightarrow> world \<Rightarrow> (error option \<times> world) list" where
  "updateTask task newTaskValues w =
     perform [call_action (updateTaskInDatabase (spread task newTaskValues)), getTasks] w"

definition deleteTask :: "string \<Rightarrow> world \<Rightarrow> (error option \<times> world) list" where
  "deleteTask taskId w =
     perform [call_action (deleteTaskFromDatabase taskId), getTasks] w"

subsection \<open>Stores and values used as examples\<close>

definition milk :: row where
  "milk = \<lparr>row_id = 1, created_at = 10, status = ''IN_PROGRESS'', title = ''Buy milk''\<rparr>"

definition bread :: row where
  "bread = \<lparr>row_id = 2, created_at = 20, status = ''COMPLETE'', title = ''Buy bread''\<rparr>"

definition two_tasks :: store where
  "two_tasks = Some \<lparr>rows = [milk, bread], last_value = 2\<rparr>"

definition exhausted :: store where
  "exhausted = Some \<lparr>rows = [milk, bread], last_value = 2147483647\<rparr>"

definition padded_title :: string where
  "padded_title = replicate 1024 (CHR ''a'') @ '' ''"

definition nul_title :: string where
  "nul_title = [CHR ''a'', CHR 0x00, CHR ''b'']"

definition long_nul_title :: string where
  "long_nul_title = CHR 0x00 # replicate 1025 (CHR ''b'')"

definition long_title :: string where
  "long_title = replicate 1025 (CHR ''x'')"

definition id_taken :: store where
  "id_taken = Some \<lparr>rows = [milk, bread], last_value = 1\<rparr>"

definition eggs :: row where
  "eggs = \<lparr>row_id = 3, created_at = 30, status = ''IN_PROGRESS'', title = ''Buy eggs''\<rparr>"

definition typing_eggs :: page where
  "typing_eggs = \<lparr>newTaskTitle = ''Buy eggs'', tasks = [bread, milk]\<rparr>"

definition hundred_fifty :: "(timestamp \<times> string) list" where
  "hundred_fifty = map (\<lambda>i. (int i, ''task'')) [1..<151]"

section \<open>Basic facts\<close>

lemmas action_defs =
  addNewTaskToDatabase_def getTasksFromDatabase_def updateTaskInDatabase_def
  deleteTaskFromDatabase_def and_then_def tableCreationIfDoesNotExist_def

lemmas int4in_defs =
  int4in_def trim_def is_space_def is_digit_def digits_value_def digit_value_def Let_def

lemma int4in_1: "int4in ''1'' = Inr 1"
  by (simp add: int4in_defs)

lemma int4in_2: "int4in ''2'' = Inr 2"
  by (simp add: int4in_defs)



lemma bind_text_ok: "CHR 0x00 \<notin> set v \<Longrightarrow> bind_text v = Inr v"
  by (simp add: bind_text_def)

lemma bind_text_Inr: "bind_text v = Inr w \<Longrightarrow> w = v \<and> CHR 0x00 \<notin> set v"
  by (simp add: bind_text_def split: if_splits)

lemma bind_text_error: "bind_text v = Inl e \<Longrightarrow> e = CharacterNotInRepertoire \<and> CHR 0x00 \<in> set v"
  by (simp add: bind_text_def split: if_splits)

lemma bind_text_status: "bind_text (status_text st) = Inr (status_text st)"
  by (cases st) (simp_all add: bind_text_def)

lemma set_dropWhile_cover: "set xs \<subseteq> {c. P c} \<union> set (dropWhile P xs)"
  by (induction xs) auto

lemma set_trim_cover: "set v \<subseteq> {c. is_space c} \<union> set (trim v)"
proof -
  let ?w = "dropWhile is_space v"
  have "set v \<subseteq> {c. is_space c} \<union> set ?w" by (rule set_dropWhile_cover)
  moreover have "set (rev ?w) \<subseteq> {c. is_space c} \<union> set (dropWhile is_space (rev ?w))"
    by (rule set_dropWhile_cover)
  ultimately show ?thesis by (auto simp: trim_def)
qed

text \<open>Text that is read as an integer holds no U+0000, so binding it changes nothing.\<close>

lemma int4in_no_nul:
  assumes "int4in v = Inr x"
  shows "CHR 0x00 \<notin> set v"
proof
  assume nul: "CHR 0x00 \<in> set v"
  have "\<not> is_space (CHR 0x00)" by (simp add: is_space_def)
  with nul set_trim_cover [of v] have body: "CHR 0x00 \<in> set (trim v)" by auto
  let ?ds = "if trim v \<noteq> [] \<and> (hd (trim v) = CHR ''-'' \<or> hd (trim v) = CHR ''+'')
             then tl (trim v) else trim v"
  from assms have digits: "list_all is_digit ?ds"
    by (auto simp: int4in_def Let_def split: if_splits)
  have "CHR 0x00 \<in> set ?ds"
  proof (cases "trim v \<noteq> [] \<and> (hd (trim v) = CHR ''-'' \<or> hd (trim v) = CHR ''+'')")
    case True
    then obtain c cs where cs: "trim v = c # cs" "c = CHR ''-'' \<or> c = CHR ''+''"
      by (cases "trim v") auto
    with body have "CHR 0x00 \<in> set cs" by auto
    with True cs show ?thesis by simp
  next
    case False
    with body show ?thesis by auto
  qed
  with digits have "is_digit (CHR 0x00)" by (simp add: list_all_iff)
  then show False by (simp add: is_digit_def)
qed

lemma bind_int4_iff: "bind_int4 v = Inr x \<longleftrightarrow> int4in v = Inr x"
proof
  assume "bind_int4 v = Inr x"
  then show "int4in v = Inr x"
    by (auto simp: bind_int4_def bind_text_def split: if_splits)
next
  assume ok: "int4in v = Inr x"
  from int4in_no_nul [OF ok] ok show "bind_int4 v = Inr x"
    by (simp add: bind_int4_def bind_text_def)
qed


lemma bind_int4_refused_iff: "bind_int4 v = Inl e \<Longrightarrow> \<forall>x. int4in v \<noteq> Inr x"
  using bind_int4_iff [of v] by auto

lemma stored_rows_two_tasks: "stored_rows two_tasks = [milk, bread]"
  by (simp add: two_tasks_def stored_rows_def)

lemma varchar_coerce_fits: "length v \<le> n \<Longrightarrow> varchar_coerce n v = Inr v"
  by (simp add: varchar_coerce_def)

lemma varchar_coerce_status: "varchar_coerce 255 (status_text st) = Inr (status_text st)"
  by (cases st) (simp_all add: varchar_coerce_def)

lemma varchar_coerce_length: "varchar_coerce n v = Inr w \<Longrightarrow> length w \<le> n"
  by (auto simp: varchar_coerce_def split: if_splits)

lemma length_filter_distinct_key:
  "distinct (map f xs) \<Longrightarrow> x \<in> set (map f xs) \<Longrightarrow>
     length (filter (\<lambda>r. f r \<noteq> x) xs) + 1 = length xs"
proof (induction xs)
  case Nil
  then show ?case by simp
next
  case (Cons a xs)
  show ?case
  proof (cases "f a = x")
    case True
    with Cons.prems have "x \<notin> set (map f xs)" by auto
    then have "filter (\<lambda>r. f r \<noteq> x) xs = xs" by (auto simp: filter_id_conv)
    with True show ?thesis by simp
  next
    case False
    with Cons show ?thesis by auto
  qed
qed



section \<open>Deleting\<close>

lemma delete_result:
  "int4in taskId = Inr x \<Longrightarrow>
   deleteTaskFromDatabase taskId s =
     (Inr (), Some \<lparr>rows = filter (\<lambda>r. row_id r \<noteq> x) (stored_rows s),
                    last_value = seq_value s\<rparr>)"
  by (cases s)
    (simp_all add: action_defs delete_task_def stored_rows_def seq_value_def
      bind_int4_iff [THEN iffD2])

lemma delete_refused:
  "bind_int4 taskId = Inl e \<Longrightarrow>
   fst (deleteTaskFromDatabase taskId s) = Inl e \<and>
   stored_rows (snd (deleteTaskFromDatabase taskId s)) = stored_rows s \<and>
   seq_value (snd (deleteTaskFromDatabase taskId s)) = seq_value s"
  by (cases s) (simp_all add: action_defs delete_task_def stored_rows_def seq_value_def)

text \<open>
  C5. Deleting a stored id \<open>X\<close> succeeds and leaves exactly the rows whose id is not
  \<open>X\<close>, in their order; no row with id \<open>X\<close> remains; when the ids are pairwise
  distinct (as \<open>PRIMARY KEY (id)\<close> keeps them) exactly one row is gone; and deleting
  \<open>X\<close> again succeeds and returns the very same store.
\<close>

theorem deleteTask_exact_idempotent:
  assumes "int4in taskId = Inr x" and "x \<in> set (map row_id (stored_rows s))"
  shows "\<exists>s1. deleteTaskFromDatabase taskId s = (Inr (), s1)
     \<and> stored_rows s1 = filter (\<lambda>r. row_id r \<noteq> x) (stored_rows s)
     \<and> x \<notin> set (map row_id (stored_rows s1))
     \<and> (distinct (map row_id (stored_rows s)) \<longrightarrow>
          length (stored_rows s1) + 1 = length (stored_rows s))
     \<and> deleteTaskFromDatabase taskId s1 = (Inr (), s1)"
proof -
  let ?s1 = "Some \<lparr>rows = filter (\<lambda>r. row_id r \<noteq> x) (stored_rows s),
                    last_value = seq_value s\<rparr>"
  have first: "deleteTaskFromDatabase taskId s = (Inr (), ?s1)"
    using assms(1) by (rule delete_result)
  have rows1: "stored_rows ?s1 = filter (\<lambda>r. row_id r \<noteq> x) (stored_rows s)"
    by (simp add: stored_rows_def)
  have gone: "x \<notin> set (map row_id (stored_rows ?s1))"
    unfolding rows1 by auto
  have one: "distinct (map row_id (stored_rows s)) \<longrightarrow>
      length (stored_rows ?s1) + 1 = length (stored_rows s)"
    unfolding rows1 using assms(2) length_filter_distinct_key [of row_id "stored_rows s" x]
    by blast
  have again: "deleteTaskFromDatabase taskId ?s1 = (Inr (), ?s1)"
    using delete_result [OF assms(1), of ?s1] by (simp add: stored_rows_def seq_value_def)
  from first rows1 gone one again show ?thesis by blast
qed

theorem deleteTask_exact_idempotent_witness:
  "int4in ''1'' = Inr 1 \<and> 1 \<in> set (map row_id (stored_rows two_tasks))
   \<and> distinct (map row_id (stored_rows two_tasks))
   \<and> (\<exists>s1. deleteTaskFromDatabase ''1'' two_tasks = (Inr (), s1)
     \<and> stored_rows s1 = [bread]
     \<and> length (stored_rows s1) + 1 = length (stored_rows two_tasks)
     \<and> deleteTaskFromDatabase ''1'' s1 = (Inr (), s1))"
proof -
  have h1: "int4in ''1'' = Inr 1" by (rule int4in_1)
  have h2: "1 \<in> set (map row_id (stored_rows two_tasks))"
    by (simp add: stored_rows_two_tasks milk_def)
  have h3: "distinct (map row_id (stored_rows two_tasks))"
    by (simp add: stored_rows_two_tasks milk_def bread_def)
  from deleteTask_exact_idempotent [OF h1 h2] h1 h2 h3 show ?thesis
    by (auto simp: stored_rows_two_tasks milk_def bread_def)
qed

section \<open>Updating\<close>

lemma update_eq:
  "updateTaskInDatabase task s =
     (case bind_text (task_title task) of
        Inl e \<Rightarrow> (Inl e, Some \<lparr>rows = stored_rows s, last_value = seq_value s\<rparr>)
      | Inr v2 \<Rightarrow>
          (case bind_int4 (task_id task) of
             Inl e \<Rightarrow> (Inl e, Some \<lparr>rows = stored_rows s, last_value = seq_value s\<rparr>)
           | Inr x \<Rightarrow>
               (case varchar_coerce 1024 v2 of
                  Inl e \<Rightarrow> (Inl e, Some \<lparr>rows = stored_rows s, last_value = seq_value s\<rparr>)
                | Inr ttl \<Rightarrow>
                    (Inr (),
                     Some \<lparr>rows = map (\<lambda>r. if row_id r = x
                                          then r\<lparr>status := status_text (task_status task),
                                                 title := ttl\<rparr>
                                          else r) (stored_rows s),
                           last_value = seq_value s\<rparr>))))"
  by (cases s)
    (simp_all add: action_defs update_task_def stored_rows_def seq_value_def
      varchar_coerce_status bind_text_status split: sum.splits)

lemma update_accepted:
  assumes "CHR 0x00 \<notin> set (task_title task)" and "int4in (task_id task) = Inr x"
    and "varchar_coerce 1024 (task_title task) = Inr ttl"
  shows "updateTaskInDatabase task s =
    (Inr (),
     Some \<lparr>rows = map (\<lambda>r. if row_id r = x
                          then r\<lparr>status := status_text (task_status task), title := ttl\<rparr>
                          else r) (stored_rows s),
           last_value = seq_value s\<rparr>)"
  using assms by (simp add: update_eq bind_text_ok bind_int4_iff [THEN iffD2])

lemma update_outcomes:
  obtains (refused) e where
      "updateTaskInDatabase task s =
         (Inl e, Some \<lparr>rows = stored_rows s, last_value = seq_value s\<rparr>)"
  | (accepted) x ttl where
      "CHR 0x00 \<notin> set (task_title task)" "int4in (task_id task) = Inr x"
      "varchar_coerce 1024 (task_title task) = Inr ttl"
      "updateTaskInDatabase task s =
         (Inr (),
          Some \<lparr>rows = map (\<lambda>r. if row_id r = x
                               then r\<lparr>status := status_text (task_status task), title := ttl\<rparr>
                               else r) (stored_rows s),
                last_value = seq_value s\<rparr>)"
proof (cases "bind_text (task_title task)")
  case (Inl e)
  then show ?thesis by (intro refused [of e]) (simp add: update_eq)
next
  case t: (Inr v2)
  then have v2: "v2 = task_title task" "CHR 0x00 \<notin> set (task_title task)"
    by (simp_all add: bind_text_Inr)
  show ?thesis
  proof (cases "bind_int4 (task_id task)")
    case (Inl e)
    with t show ?thesis by (intro refused [of e]) (simp add: update_eq)
  next
    case i: (Inr x)
    then have x: "int4in (task_id task) = Inr x" by (simp add: bind_int4_iff)
    show ?thesis
    proof (cases "varchar_coerce 1024 (task_title task)")
      case (Inl e)
      with t i v2 show ?thesis by (intro refused [of e]) (simp add: update_eq)
    next
      case (Inr ttl)
      with v2(2) x show ?thesis by (intro accepted [of x ttl]) (simp_all add: update_accepted)
    qed
  qed
qed

lemma update_rows_cases:
  "stored_rows (snd (updateTaskInDatabase task s)) = stored_rows s \<or>
   (\<exists>x ttl. int4in (task_id task) = Inr x \<and> varchar_coerce 1024 (task_title task) = Inr ttl \<and>
      fst (updateTaskInDatabase task s) = Inr () \<and>
      stored_rows (snd (updateTaskInDatabase task s)) =
        map (\<lambda>r. if row_id r = x
                  then r\<lparr>status := status_text (task_status task), title := ttl\<rparr>
                  else r) (stored_rows s))"
  by (cases task s rule: update_outcomes) (simp_all add: stored_rows_def)

lemma update_failure_rows:
  "fst (updateTaskInDatabase task s) = Inl e \<Longrightarrow>
   stored_rows (snd (updateTaskInDatabase task s)) = stored_rows s"
  by (cases task s rule: update_outcomes) (simp_all add: stored_rows_def)

lemma update_success:
  "fst (updateTaskInDatabase task s) = Inr () \<Longrightarrow>
   \<exists>x ttl. int4in (task_id task) = Inr x \<and> varchar_coerce 1024 (task_title task) = Inr ttl \<and>
      stored_rows (snd (updateTaskInDatabase task s)) =
        map (\<lambda>r. if row_id r = x
                  then r\<lparr>status := status_text (task_status task), title := ttl\<rparr>
                  else r) (stored_rows s)"
  by (cases task s rule: update_outcomes) (simp_all add: stored_rows_def)

lemma update_length:
  "length (stored_rows (snd (updateTaskInDatabase task s))) = length (stored_rows s)"
  using update_rows_cases [of task s] by auto

lemma update_ids:
  "map row_id (stored_rows (snd (updateTaskInDatabase task s))) = map row_id (stored_rows s)"
  using update_rows_cases [of task s] by (auto simp: comp_def)

lemma update_created_at:
  "map created_at (stored_rows (snd (updateTaskInDatabase task s))) =
   map created_at (stored_rows s)"
  using update_rows_cases [of task s] by (auto simp: comp_def)

lemma update_other_rows:
  assumes "i < length (stored_rows s)"
    and "int4in (task_id task) \<noteq> Inr (row_id (stored_rows s ! i))"
  shows "stored_rows (snd (updateTaskInDatabase task s)) ! i = stored_rows s ! i"
  using update_rows_cases [of task s] assms by auto

lemma update_target_row:
  assumes "i < length (stored_rows s)"
    and "fst (updateTaskInDatabase task s) = Inr ()"
    and "int4in (task_id task) = Inr (row_id (stored_rows s ! i))"
  shows "status (stored_rows (snd (updateTaskInDatabase task s)) ! i) =
           status_text (task_status task) \<and>
         varchar_coerce 1024 (task_title task) =
           Inr (title (stored_rows (snd (updateTaskInDatabase task s)) ! i))"
  using update_success [OF assms(2)] assms(1,3) by auto

text \<open>
  C2. Whatever the store and the task value, after \<open>updateTaskInDatabase\<close> the table has
  the same number of rows in the same places; every row keeps its id and its
  \<open>created_at\<close>; a row whose id is not the one \<open>task.id\<close> denotes is unchanged in every
  column; and when the call succeeds, the row whose id \<open>task.id\<close> denotes carries the
  status of the task and the title as the column \<open>title\<close> stores it.
\<close>

theorem updateTask_changes_only_target:
  "length (stored_rows (snd (updateTaskInDatabase task s))) = length (stored_rows s) \<and>
   (\<forall>i < length (stored_rows s).
      row_id (stored_rows (snd (updateTaskInDatabase task s)) ! i) = row_id (stored_rows s ! i) \<and>
      created_at (stored_rows (snd (updateTaskInDatabase task s)) ! i) =
        created_at (stored_rows s ! i) \<and>
      (int4in (task_id task) \<noteq> Inr (row_id (stored_rows s ! i)) \<longrightarrow>
         stored_rows (snd (updateTaskInDatabase task s)) ! i = stored_rows s ! i) \<and>
      (fst (updateTaskInDatabase task s) = Inr () \<and>
       int4in (task_id task) = Inr (row_id (stored_rows s ! i)) \<longrightarrow>
         status (stored_rows (snd (updateTaskInDatabase task s)) ! i) =
           status_text (task_status task) \<and>
         varchar_coerce 1024 (task_title task) =
           Inr (title (stored_rows (snd (updateTaskInDatabase task s)) ! i))))"
proof (intro conjI allI impI)
  show "length (stored_rows (snd (updateTaskInDatabase task s))) = length (stored_rows s)"
    by (rule update_length)
next
  fix i assume i: "i < length (stored_rows s)"
  from i show "row_id (stored_rows (snd (updateTaskInDatabase task s)) ! i) =
      row_id (stored_rows s ! i)"
    using update_ids [of task s] update_length [of task s]
    by (metis nth_map)
  from i show "created_at (stored_rows (snd (updateTaskInDatabase task s)) ! i) =
      created_at (stored_rows s ! i)"
    using update_created_at [of task s] update_length [of task s]
    by (metis nth_map)
next
  fix i assume "i < length (stored_rows s)"
    and "int4in (task_id task) \<noteq> Inr (row_id (stored_rows s ! i))"
  then show "stored_rows (snd (updateTaskInDatabase task s)) ! i = stored_rows s ! i"
    by (rule update_other_rows)
next
  fix i assume i: "i < length (stored_rows s)"
    and ok: "fst (updateTaskInDatabase task s) = Inr () \<and>
       int4in (task_id task) = Inr (row_id (stored_rows s ! i))"
  from update_target_row [OF i] ok
  show "status (stored_rows (snd (updateTaskInDatabase task s)) ! i) =
      status_text (task_status task)"
    and "varchar_coerce 1024 (task_title task) =
      Inr (title (stored_rows (snd (updateTaskInDatabase task s)) ! i))"
    by blast+
qed

theorem updateTask_changes_only_target_witness:
  "fst (updateTaskInDatabase \<lparr>task_id = ''1'', task_title = ''T'', task_status = COMPLETE\<rparr> two_tasks)
     = Inr () \<and>
   int4in ''1'' = Inr (row_id (stored_rows two_tasks ! 0)) \<and>
   int4in ''1'' \<noteq> Inr (row_id (stored_rows two_tasks ! 1)) \<and>
   stored_rows (snd (updateTaskInDatabase
       \<lparr>task_id = ''1'', task_title = ''T'', task_status = COMPLETE\<rparr> two_tasks)) =
     [\<lparr>row_id = 1, created_at = 10, status = ''COMPLETE'', title = ''T''\<rparr>, bread]"
proof -
  let ?task = "\<lparr>task_id = ''1'', task_title = ''T'', task_status = COMPLETE\<rparr>"
  let ?rows1 = "stored_rows (snd (updateTaskInDatabase ?task two_tasks))"
  have ok: "fst (updateTaskInDatabase ?task two_tasks) = Inr ()"
    using update_accepted [of ?task 1 "''T''" two_tasks]
    by (simp add: int4in_1 varchar_coerce_def)
  have id0: "int4in ''1'' = Inr (row_id (stored_rows two_tasks ! 0))"
    by (simp add: int4in_1 stored_rows_two_tasks milk_def)
  have id1: "int4in ''1'' \<noteq> Inr (row_id (stored_rows two_tasks ! 1))"
    by (simp add: int4in_1 stored_rows_two_tasks bread_def)
  have len: "length (stored_rows two_tasks) = 2"
    by (simp add: stored_rows_two_tasks)
  note frame = updateTask_changes_only_target [of ?task two_tasks]
  from frame len have len1: "length ?rows1 = 2" by simp
  from frame len have at1: "?rows1 ! 1 = bread"
    using id1 by (simp add: stored_rows_two_tasks)
  from frame len ok id0 have at0:
    "row_id (?rows1 ! 0) = 1 \<and> created_at (?rows1 ! 0) = 10 \<and>
     status (?rows1 ! 0) = ''COMPLETE'' \<and> Inr ''T'' = Inr (title (?rows1 ! 0))"
    by (simp add: stored_rows_two_tasks milk_def varchar_coerce_def)
  then have "?rows1 ! 0 = \<lparr>row_id = 1, created_at = 10, status = ''COMPLETE'', title = ''T''\<rparr>"
    by simp
  with at1 len1 have "?rows1 =
      [\<lparr>row_id = 1, created_at = 10, status = ''COMPLETE'', title = ''T''\<rparr>, bread]"
    by (cases ?rows1; cases "tl ?rows1") auto
  with ok id0 id1 show ?thesis by blast
qed

section \<open>An id that matches no row\<close>












section \<open>Creating the table\<close>

lemma ensure_fst [simp]: "fst (tableCreationIfDoesNotExist s) = Inr ()"
  by (cases s) (simp_all add: tableCreationIfDoesNotExist_def)

lemma ensure_snd:
  "snd (tableCreationIfDoesNotExist s) = Some \<lparr>rows = stored_rows s, last_value = seq_value s\<rparr>"
  by (cases s) (simp_all add: tableCreationIfDoesNotExist_def stored_rows_def seq_value_def)

lemma ensure_rows [simp]: "stored_rows (snd (tableCreationIfDoesNotExist s)) = stored_rows s"
  by (simp add: ensure_snd stored_rows_def)

lemma ensure_seq [simp]: "seq_value (snd (tableCreationIfDoesNotExist s)) = seq_value s"
  by (simp add: ensure_snd seq_value_def)

lemma ensure_twice:
  "tableCreationIfDoesNotExist (snd (tableCreationIfDoesNotExist s)) =
   tableCreationIfDoesNotExist s"
  by (cases s) (simp_all add: tableCreationIfDoesNotExist_def)

lemma and_then_ensure:
  "and_then (tableCreationIfDoesNotExist s) f = f (snd (tableCreationIfDoesNotExist s))"
  by (cases s) (simp_all add: and_then_def tableCreationIfDoesNotExist_def)

lemma action_after_ensure:
  "addNewTaskToDatabase now newTask (snd (tableCreationIfDoesNotExist s)) =
     addNewTaskToDatabase now newTask s"
  "getTasksFromDatabase (snd (tableCreationIfDoesNotExist s)) = getTasksFromDatabase s"
  "updateTaskInDatabase task (snd (tableCreationIfDoesNotExist s)) = updateTaskInDatabase task s"
  "deleteTaskFromDatabase taskId (snd (tableCreationIfDoesNotExist s)) =
     deleteTaskFromDatabase taskId s"
  by (cases s; simp add: action_defs)+

lemma exec_after_ensure: "exec c (exec EnsureSchema s) = exec EnsureSchema (exec c s)"
proof (cases c)
    case (AddTask now newTask)
    then show ?thesis
      by (cases s)
        (auto simp: action_defs insert_task_def Let_def split: sum.splits)
  next
    case ListTasks
    then show ?thesis by (cases s) (auto simp: action_defs select_tasks_def)
  next
    case (UpdateTask task)
    then show ?thesis
      by (cases s) (auto simp: action_defs update_task_def split: sum.splits)
  next
    case (DeleteTask taskId)
    then show ?thesis
      by (cases s) (auto simp: action_defs delete_task_def split: sum.splits)
  next
    case EnsureSchema
    then show ?thesis by simp
qed

lemma exec_absorbs_ensure: "c \<noteq> EnsureSchema \<Longrightarrow> exec c (exec EnsureSchema s) = exec c s"
  by (cases c) (simp_all add: action_after_ensure)

lemma exec_ensure_twice: "exec EnsureSchema (exec EnsureSchema s) = exec EnsureSchema s"
  by (simp add: ensure_twice)

lemma run_Cons: "run (c # cs) s = run cs (exec c s)"
  by (simp add: run_def)

lemma run_Nil: "run [] s = s"
  by (simp add: run_def)

lemma run_after_ensure: "run cs (exec EnsureSchema s) = exec EnsureSchema (run cs s)"
proof (induction cs arbitrary: s)
  case Nil
  then show ?case by (simp add: run_Nil)
next
  case (Cons c cs)
  have "run (c # cs) (exec EnsureSchema s) = run cs (exec EnsureSchema (exec c s))"
    by (simp only: run_Cons exec_after_ensure)
  also have "\<dots> = exec EnsureSchema (run cs (exec c s))" by (rule Cons.IH)
  finally show ?case by (simp only: run_Cons)
qed

lemma run_without_ensure:
  "exec EnsureSchema (run (filter (\<lambda>c. c \<noteq> EnsureSchema) cs) s) = exec EnsureSchema (run cs s)"
proof (induction cs arbitrary: s)
  case Nil
  then show ?case by simp
next
  case (Cons c cs)
  show ?case
  proof (cases "c = EnsureSchema")
    case True
    have "exec EnsureSchema (run (filter (\<lambda>c. c \<noteq> EnsureSchema) (c # cs)) s) =
        exec EnsureSchema (run cs s)"
      using True Cons.IH by simp
    also have "\<dots> = exec EnsureSchema (exec EnsureSchema (run cs s))"
      by (simp only: exec_ensure_twice)
    also have "\<dots> = exec EnsureSchema (run cs (exec EnsureSchema s))"
      by (simp only: run_after_ensure)
    finally show ?thesis using True by (simp only: run_Cons)
  next
    case False
    then show ?thesis using Cons.IH by (simp add: run_Cons)
  qed
qed

lemma statements_need_table:
  "fst (insert_task now newTask None) = Inl UndefinedTable"
  "fst (select_tasks None) = Inl UndefinedTable"
  "fst (update_task p1 p2 p3 None) = Inl UndefinedTable"
  "fst (delete_task taskId None) = Inl UndefinedTable"
  by (simp_all add: insert_task_def select_tasks_def update_task_def delete_task_def)

lemma int4in_not_undefined: "int4in v \<noteq> Inl UndefinedTable"
  by (simp add: int4in_def Let_def)

lemma bind_not_undefined:
  "bind_text v \<noteq> Inl UndefinedTable" "bind_int4 v \<noteq> Inl UndefinedTable"
  using int4in_not_undefined [of v]
  by (simp_all add: bind_text_def bind_int4_def)

lemma statements_on_table:
  "fst (insert_task now newTask (Some t)) \<noteq> Inl UndefinedTable"
  "fst (select_tasks (Some t)) \<noteq> Inl UndefinedTable"
  "fst (update_task p1 p2 p3 (Some t)) \<noteq> Inl UndefinedTable"
  "fst (delete_task taskId (Some t)) \<noteq> Inl UndefinedTable"
  using bind_not_undefined [of p3] bind_not_undefined [of taskId]
    bind_not_undefined [of newTask] bind_not_undefined [of p1] bind_not_undefined [of p2]
  by (auto simp: insert_task_def select_tasks_def update_task_def delete_task_def
      varchar_coerce_def Let_def split: sum.splits)

text \<open>
  C6. \<open>tableCreationIfDoesNotExist\<close> never raises, leaves the rows as they are, and a
  second call changes nothing. Calls of it put anywhere among other calls make no
  difference to the store that results (once the table exists), so none to the rows.
  Each of the four actions is its own statement run on the store that the helper
  returns, and that store has the table: run on a store without the table the four
  statements raise, the four actions do not.
\<close>

theorem ensureSchema_idempotent_and_first:
  "fst (tableCreationIfDoesNotExist s) = Inr () \<and>
   stored_rows (snd (tableCreationIfDoesNotExist s)) = stored_rows s \<and>
   tableCreationIfDoesNotExist (snd (tableCreationIfDoesNotExist s)) =
     tableCreationIfDoesNotExist s \<and>
   exec EnsureSchema (run cs s) =
     exec EnsureSchema (run (filter (\<lambda>c. c \<noteq> EnsureSchema) cs) s) \<and>
   stored_rows (run cs s) = stored_rows (run (filter (\<lambda>c. c \<noteq> EnsureSchema) cs) s) \<and>
   snd (tableCreationIfDoesNotExist s) \<noteq> None \<and>
   addNewTaskToDatabase now newTask s =
     insert_task now newTask (snd (tableCreationIfDoesNotExist s)) \<and>
   getTasksFromDatabase s = select_tasks (snd (tableCreationIfDoesNotExist s)) \<and>
   updateTaskInDatabase task s =
     update_task (status_text (task_status task)) (task_title task) (task_id task)
       (snd (tableCreationIfDoesNotExist s)) \<and>
   deleteTaskFromDatabase taskId s = delete_task taskId (snd (tableCreationIfDoesNotExist s)) \<and>
   fst (insert_task now newTask None) = Inl UndefinedTable \<and>
   fst (select_tasks None) = Inl UndefinedTable \<and>
   fst (update_task (status_text (task_status task)) (task_title task) (task_id task) None) =
     Inl UndefinedTable \<and>
   fst (delete_task taskId None) = Inl UndefinedTable \<and>
   fst (addNewTaskToDatabase now newTask s) \<noteq> Inl UndefinedTable \<and>
   fst (getTasksFromDatabase s) \<noteq> Inl UndefinedTable \<and>
   fst (updateTaskInDatabase task s) \<noteq> Inl UndefinedTable \<and>
   fst (deleteTaskFromDatabase taskId s) \<noteq> Inl UndefinedTable"
proof -
  have same: "exec EnsureSchema (run cs s) =
      exec EnsureSchema (run (filter (\<lambda>c. c \<noteq> EnsureSchema) cs) s)"
    by (rule run_without_ensure [symmetric])
  have "stored_rows (exec EnsureSchema (run cs s)) =
      stored_rows (exec EnsureSchema (run (filter (\<lambda>c. c \<noteq> EnsureSchema) cs) s))"
    by (simp only: same)
  then have rows: "stored_rows (run cs s) =
      stored_rows (run (filter (\<lambda>c. c \<noteq> EnsureSchema) cs) s)"
    by simp
  have table: "snd (tableCreationIfDoesNotExist s) \<noteq> None"
    by (simp add: ensure_snd)
  then obtain t where t: "snd (tableCreationIfDoesNotExist s) = Some t" by blast
  have actions:
    "addNewTaskToDatabase now newTask s =
       insert_task now newTask (snd (tableCreationIfDoesNotExist s))"
    "getTasksFromDatabase s = select_tasks (snd (tableCreationIfDoesNotExist s))"
    "updateTaskInDatabase task s =
       update_task (status_text (task_status task)) (task_title task) (task_id task)
         (snd (tableCreationIfDoesNotExist s))"
    "deleteTaskFromDatabase taskId s = delete_task taskId (snd (tableCreationIfDoesNotExist s))"
    by (simp_all only: addNewTaskToDatabase_def getTasksFromDatabase_def
        updateTaskInDatabase_def deleteTaskFromDatabase_def and_then_ensure)
  have defined:
    "fst (addNewTaskToDatabase now newTask s) \<noteq> Inl UndefinedTable"
    "fst (getTasksFromDatabase s) \<noteq> Inl UndefinedTable"
    "fst (updateTaskInDatabase task s) \<noteq> Inl UndefinedTable"
    "fst (deleteTaskFromDatabase taskId s) \<noteq> Inl UndefinedTable"
    unfolding actions t by (rule statements_on_table)+
  show ?thesis
    using same rows table actions defined
    by (simp only: ensure_fst ensure_rows ensure_twice statements_need_table simp_thms)
qed

section \<open>Inserting\<close>

lemma add_eq:
  "addNewTaskToDatabase now newTask s =
     (case bind_text newTask of
        Inl e \<Rightarrow> (Inl e, Some \<lparr>rows = stored_rows s, last_value = seq_value s\<rparr>)
      | Inr v1 \<Rightarrow>
     (case varchar_coerce 1024 v1 of
        Inl e \<Rightarrow> (Inl e, Some \<lparr>rows = stored_rows s, last_value = seq_value s\<rparr>)
      | Inr ttl \<Rightarrow>
          if serial_max \<le> seq_value s
          then (Inl SequenceExhausted, Some \<lparr>rows = stored_rows s, last_value = seq_value s\<rparr>)
          else if seq_value s + 1 \<in> set (map row_id (stored_rows s))
          then (Inl (UniqueViolation (seq_value s + 1)),
                Some \<lparr>rows = stored_rows s, last_value = seq_value s + 1\<rparr>)
          else (Inr (),
                Some \<lparr>rows = stored_rows s @
                        [\<lparr>row_id = seq_value s + 1, created_at = now,
                          status = ''IN_PROGRESS'', title = ttl\<rparr>],
                      last_value = seq_value s + 1\<rparr>)))"
  by (cases s)
    (simp_all add: action_defs insert_task_def stored_rows_def seq_value_def Let_def
      varchar_coerce_fits split: sum.splits)

lemma add_eq_bound:
  "CHR 0x00 \<notin> set newTask \<Longrightarrow>
   addNewTaskToDatabase now newTask s =
     (case varchar_coerce 1024 newTask of
        Inl e \<Rightarrow> (Inl e, Some \<lparr>rows = stored_rows s, last_value = seq_value s\<rparr>)
      | Inr ttl \<Rightarrow>
          if serial_max \<le> seq_value s
          then (Inl SequenceExhausted, Some \<lparr>rows = stored_rows s, last_value = seq_value s\<rparr>)
          else if seq_value s + 1 \<in> set (map row_id (stored_rows s))
          then (Inl (UniqueViolation (seq_value s + 1)),
                Some \<lparr>rows = stored_rows s, last_value = seq_value s + 1\<rparr>)
          else (Inr (),
                Some \<lparr>rows = stored_rows s @
                        [\<lparr>row_id = seq_value s + 1, created_at = now,
                          status = ''IN_PROGRESS'', title = ttl\<rparr>],
                      last_value = seq_value s + 1\<rparr>))"
  by (simp add: add_eq bind_text_ok)

lemma add_nul:
  "CHR 0x00 \<in> set newTask \<Longrightarrow>
   addNewTaskToDatabase now newTask s =
     (Inl CharacterNotInRepertoire, snd (tableCreationIfDoesNotExist s))"
  by (cases s) (simp_all add: add_eq bind_text_def stored_rows_def seq_value_def
      tableCreationIfDoesNotExist_def)

lemma add_success:
  assumes "addNewTaskToDatabase now newTask s = (Inr u, s1)"
  shows "\<exists>ttl. varchar_coerce 1024 newTask = Inr ttl \<and>
           stored_rows s1 = stored_rows s @
             [\<lparr>row_id = seq_value s + 1, created_at = now,
               status = ''IN_PROGRESS'', title = ttl\<rparr>] \<and>
           seq_value s1 = seq_value s + 1 \<and>
           seq_value s < serial_max \<and>
           seq_value s + 1 \<notin> set (map row_id (stored_rows s)) \<and>
           CHR 0x00 \<notin> set newTask"
proof (cases "CHR 0x00 \<in> set newTask")
  case True
  with assms show ?thesis by (simp add: add_nul)
next
  case False
  with assms show ?thesis
    by (auto simp: add_eq_bound stored_rows_def seq_value_def split: sum.splits if_splits)
qed

lemma add_failure:
  assumes "fst (addNewTaskToDatabase now newTask s) = Inl e"
  shows "stored_rows (snd (addNewTaskToDatabase now newTask s)) = stored_rows s \<and>
         seq_value s \<le> seq_value (snd (addNewTaskToDatabase now newTask s))"
proof (cases "CHR 0x00 \<in> set newTask")
  case True
  then show ?thesis by (simp add: add_nul)
next
  case False
  with assms show ?thesis
    by (auto simp: add_eq_bound stored_rows_def seq_value_def split: sum.splits if_splits)
qed

lemma add_accepts:
  assumes "length newTask \<le> 1024" and "seq_value s < serial_max"
    and "list_all (\<lambda>r. row_id r \<le> seq_value s) (stored_rows s)"
    and "CHR 0x00 \<notin> set newTask"
  shows "addNewTaskToDatabase now newTask s =
           (Inr (),
            Some \<lparr>rows = stored_rows s @
                    [\<lparr>row_id = seq_value s + 1, created_at = now,
                      status = ''IN_PROGRESS'', title = newTask\<rparr>],
                  last_value = seq_value s + 1\<rparr>)"
proof -
  from assms(3) have "seq_value s + 1 \<notin> set (map row_id (stored_rows s))"
    by (auto simp: list_all_iff)
  with assms(1,2,4) show ?thesis
    by (simp add: add_eq_bound varchar_coerce_fits)
qed

section \<open>What one call does to the rows\<close>

text \<open>
  Every call leaves the rows as they are, or appends one row with the next sequence
  value and status \<open>IN_PROGRESS\<close>, or rewrites status and title of the rows with one
  id, or removes the rows with one id. The sequence value never goes down.
\<close>

lemma exec_cases:
  "(stored_rows (exec c s) = stored_rows s \<and> seq_value s \<le> seq_value (exec c s)) \<or>
   (\<exists>now ttl. stored_rows (exec c s) = stored_rows s @
        [\<lparr>row_id = seq_value s + 1, created_at = now, status = ''IN_PROGRESS'', title = ttl\<rparr>] \<and>
      seq_value (exec c s) = seq_value s + 1) \<or>
   (\<exists>x st ttl. stored_rows (exec c s) =
        map (\<lambda>r. if row_id r = x then r\<lparr>status := status_text st, title := ttl\<rparr> else r)
          (stored_rows s) \<and>
      seq_value (exec c s) = seq_value s) \<or>
   (\<exists>x. stored_rows (exec c s) = filter (\<lambda>r. row_id r \<noteq> x) (stored_rows s) \<and>
      seq_value (exec c s) = seq_value s)"
proof (cases c)
  case (AddTask now newTask)
  show ?thesis
  proof (cases "fst (addNewTaskToDatabase now newTask s)")
    case (Inl e)
    from add_failure [OF this] AddTask show ?thesis by simp
  next
    case (Inr u)
    then have "addNewTaskToDatabase now newTask s = (Inr u, exec c s)"
      using AddTask by (simp add: prod_eq_iff)
    from add_success [OF this] show ?thesis by blast
  qed
next
  case ListTasks
  then have "stored_rows (exec c s) = stored_rows s \<and> seq_value (exec c s) = seq_value s"
    by (cases s)
      (simp_all add: action_defs select_tasks_def stored_rows_def seq_value_def)
  then show ?thesis by simp
next
  case (UpdateTask task)
  have seq: "seq_value (exec c s) = seq_value s"
    using UpdateTask by (simp add: update_eq seq_value_def split: sum.splits)
  from update_rows_cases [of task s] show ?thesis
  proof
    assume "stored_rows (snd (updateTaskInDatabase task s)) = stored_rows s"
    with seq UpdateTask show ?thesis by simp
  next
    assume "\<exists>x ttl. int4in (task_id task) = Inr x \<and>
        varchar_coerce 1024 (task_title task) = Inr ttl \<and>
        fst (updateTaskInDatabase task s) = Inr () \<and>
        stored_rows (snd (updateTaskInDatabase task s)) =
          map (\<lambda>r. if row_id r = x
                    then r\<lparr>status := status_text (task_status task), title := ttl\<rparr>
                    else r) (stored_rows s)"
    with seq UpdateTask show ?thesis by auto
  qed
next
  case (DeleteTask taskId)
  show ?thesis
  proof (cases "bind_int4 taskId")
    case (Inl e)
    from delete_refused [OF this, of s] DeleteTask
    have "stored_rows (exec c s) = stored_rows s \<and> seq_value (exec c s) = seq_value s"
      by simp
    then show ?thesis by simp
  next
    case (Inr x)
    then have "int4in taskId = Inr x" by (simp add: bind_int4_iff)
    from delete_result [OF this, of s] DeleteTask
    have "stored_rows (exec c s) = filter (\<lambda>r. row_id r \<noteq> x) (stored_rows s) \<and>
        seq_value (exec c s) = seq_value s"
      by (simp add: stored_rows_def seq_value_def)
    then show ?thesis by blast
  qed
next
  case EnsureSchema
  then show ?thesis by simp
qed

section \<open>Status values\<close>

lemma status_text_cases: "status_text st = ''IN_PROGRESS'' \<or> status_text st = ''COMPLETE''"
  by (cases st) simp_all

lemma exec_status_inv: "status_inv s \<Longrightarrow> status_inv (exec c s)"
  using exec_cases [of c s] status_text_cases
  by (fastforce simp: status_inv_def list_all_iff)

lemma run_status_inv: "status_inv s \<Longrightarrow> status_inv (run cs s)"
proof (induction cs arbitrary: s)
  case Nil
  then show ?case by (simp add: run_Nil)
next
  case (Cons c cs)
  from Cons.prems have "status_inv (exec c s)" by (rule exec_status_inv)
  then have "status_inv (run cs (exec c s))" by (rule Cons.IH)
  then show ?case by (simp only: run_Cons)
qed

text \<open>
  C8. If every stored row has status \<open>IN_PROGRESS\<close> or \<open>COMPLETE\<close>, then so has every
  row after any sequence of calls of the module (add, list, update, delete, schema
  creation); a newly created table has no row, so it satisfies the condition; and a
  row that \<open>addNewTaskToDatabase\<close> inserts has status \<open>IN_PROGRESS\<close>. The column
  \<open>title\<close> is \<open>NOT NULL\<close>: a row of the model always carries a title, the one the
  store accepted for the column (at most 1024 characters for an inserted row).
\<close>

theorem status_and_title_invariant:
  "(status_inv s \<longrightarrow> status_inv (run cs s)) \<and>
   status_inv None \<and>
   status_inv (snd (tableCreationIfDoesNotExist None)) \<and>
   (addNewTaskToDatabase now newTask s = (Inr (), s1) \<longrightarrow>
      (\<exists>r. stored_rows s1 = stored_rows s @ [r] \<and> status r = ''IN_PROGRESS'' \<and>
            varchar_coerce 1024 newTask = Inr (title r) \<and> length (title r) \<le> 1024))"
proof (intro conjI impI)
  show "status_inv (run cs s)" if "status_inv s"
    using that by (rule run_status_inv)
  show "status_inv None"
    by (simp add: status_inv_def stored_rows_def)
  show "status_inv (snd (tableCreationIfDoesNotExist None))"
    by (simp add: status_inv_def) (simp add: stored_rows_def)
  show "\<exists>r. stored_rows s1 = stored_rows s @ [r] \<and> status r = ''IN_PROGRESS'' \<and>
      varchar_coerce 1024 newTask = Inr (title r) \<and> length (title r) \<le> 1024"
    if "addNewTaskToDatabase now newTask s = (Inr (), s1)"
    using add_success [OF that] varchar_coerce_length [of 1024 newTask] by force
qed

theorem status_and_title_invariant_witness:
  "status_inv two_tasks \<and>
   status_inv (run [AddTask 30 ''Buy eggs'',
                    UpdateTask \<lparr>task_id = ''1'', task_title = ''Buy oat milk'', task_status = COMPLETE\<rparr>,
                    DeleteTask ''2'', ListTasks] two_tasks) \<and>
   addNewTaskToDatabase 30 ''Buy eggs'' two_tasks =
     (Inr (), Some \<lparr>rows = [milk, bread,
        \<lparr>row_id = 3, created_at = 30, status = ''IN_PROGRESS'', title = ''Buy eggs''\<rparr>],
        last_value = 3\<rparr>) \<and>
   (\<exists>r. [milk, bread, \<lparr>row_id = 3, created_at = 30, status = ''IN_PROGRESS'', title = ''Buy eggs''\<rparr>]
           = [milk, bread] @ [r] \<and> status r = ''IN_PROGRESS'')"
proof -
  have h1: "status_inv two_tasks"
    by (simp add: status_inv_def stored_rows_two_tasks milk_def bread_def)
  have h2: "addNewTaskToDatabase 30 ''Buy eggs'' two_tasks =
     (Inr (), Some \<lparr>rows = [milk, bread,
        \<lparr>row_id = 3, created_at = 30, status = ''IN_PROGRESS'', title = ''Buy eggs''\<rparr>],
        last_value = 3\<rparr>)"
    by (simp add: add_eq bind_text_def varchar_coerce_def serial_max_def stored_rows_two_tasks
        milk_def bread_def) (simp add: two_tasks_def seq_value_def)
  from status_and_title_invariant [of two_tasks _ 30 "''Buy eggs''"] h1 h2
  show ?thesis by (simp add: stored_rows_def)
qed

section \<open>Ids\<close>

lemma ids_inv_iff:
  "ids_inv s \<longleftrightarrow>
     sorted_wrt (\<lambda>a b. row_id a < row_id b) (stored_rows s) \<and>
     (\<forall>r \<in> set (stored_rows s). row_id r \<le> seq_value s)"
  by (simp add: ids_inv_def sorted_wrt_map list_all_iff)

lemma ids_inv_distinct: "ids_inv s \<Longrightarrow> distinct (map row_id (stored_rows s))"
  by (simp add: ids_inv_def strict_sorted_iff)

lemma map_row_id_update:
  "map row_id (map (\<lambda>r. if row_id r = x then r\<lparr>status := st, title := ttl\<rparr> else r) xs) =
   map row_id xs"
  by (induction xs) auto

lemma sorted_wrt_update:
  "sorted_wrt (\<lambda>a b. row_id a < row_id b)
     (map (\<lambda>r. if row_id r = x then r\<lparr>status := st, title := ttl\<rparr> else r) xs) =
   sorted_wrt (\<lambda>a b. row_id a < row_id b) xs"
proof -
  have "sorted_wrt (<) (map row_id
      (map (\<lambda>r. if row_id r = x then r\<lparr>status := st, title := ttl\<rparr> else r) xs)) =
    sorted_wrt (<) (map row_id xs)"
    by (simp only: map_row_id_update)
  then show ?thesis by (simp only: sorted_wrt_map)
qed

lemma exec_ids:
  assumes "ids_inv s"
  shows "ids_inv (exec c s) \<and> seq_value s \<le> seq_value (exec c s) \<and>
    (\<forall>r \<in> set (stored_rows (exec c s)). row_id r \<le> seq_value s \<longrightarrow>
       (\<exists>r0 \<in> set (stored_rows s). row_id r0 = row_id r \<and> created_at r0 = created_at r))"
proof -
  from assms have srt: "sorted_wrt (\<lambda>a b. row_id a < row_id b) (stored_rows s)"
    and bnd: "\<forall>r \<in> set (stored_rows s). row_id r \<le> seq_value s"
    by (simp_all add: ids_inv_iff)
  consider
    (same) "stored_rows (exec c s) = stored_rows s" "seq_value s \<le> seq_value (exec c s)"
  | (app) now ttl where "stored_rows (exec c s) = stored_rows s @
        [\<lparr>row_id = seq_value s + 1, created_at = now, status = ''IN_PROGRESS'', title = ttl\<rparr>]"
      "seq_value (exec c s) = seq_value s + 1"
  | (upd) x st ttl where "stored_rows (exec c s) =
        map (\<lambda>r. if row_id r = x then r\<lparr>status := status_text st, title := ttl\<rparr> else r)
          (stored_rows s)"
      "seq_value (exec c s) = seq_value s"
  | (del) x where "stored_rows (exec c s) = filter (\<lambda>r. row_id r \<noteq> x) (stored_rows s)"
      "seq_value (exec c s) = seq_value s"
    using exec_cases [of c s] by blast
  then show ?thesis
  proof cases
    case same
    with srt bnd show ?thesis by (fastforce simp: ids_inv_iff)
  next
    case app
    have "sorted_wrt (\<lambda>a b. row_id a < row_id b) (stored_rows (exec c s))"
      unfolding app(1) using srt bnd by (fastforce simp: sorted_wrt_append)
    moreover have "\<forall>r \<in> set (stored_rows (exec c s)). row_id r \<le> seq_value (exec c s)"
      unfolding app using bnd by fastforce
    moreover have "\<forall>r \<in> set (stored_rows (exec c s)). row_id r \<le> seq_value s \<longrightarrow>
       (\<exists>r0 \<in> set (stored_rows s). row_id r0 = row_id r \<and> created_at r0 = created_at r)"
      unfolding app(1) by auto
    ultimately show ?thesis using app(2) by (simp add: ids_inv_iff)
  next
    case upd
    have "sorted_wrt (\<lambda>a b. row_id a < row_id b) (stored_rows (exec c s))"
      unfolding upd(1) using srt by (simp only: sorted_wrt_update)
    moreover have "\<forall>r \<in> set (stored_rows (exec c s)). row_id r \<le> seq_value (exec c s)"
      unfolding upd using bnd by auto
    moreover have "\<forall>r \<in> set (stored_rows (exec c s)). row_id r \<le> seq_value s \<longrightarrow>
       (\<exists>r0 \<in> set (stored_rows s). row_id r0 = row_id r \<and> created_at r0 = created_at r)"
      unfolding upd(1) by auto
    ultimately show ?thesis using upd(2) by (simp add: ids_inv_iff)
  next
    case del
    have "sorted_wrt (\<lambda>a b. row_id a < row_id b) (stored_rows (exec c s))"
      unfolding del(1) using srt by (rule sorted_wrt_filter)
    moreover have "\<forall>r \<in> set (stored_rows (exec c s)). row_id r \<le> seq_value (exec c s)"
      unfolding del using bnd by auto
    moreover have "\<forall>r \<in> set (stored_rows (exec c s)). row_id r \<le> seq_value s \<longrightarrow>
       (\<exists>r0 \<in> set (stored_rows s). row_id r0 = row_id r \<and> created_at r0 = created_at r)"
      unfolding del(1) by auto
    ultimately show ?thesis using del(2) by (simp add: ids_inv_iff)
  qed
qed

lemma run_ids:
  assumes "ids_inv s"
  shows "ids_inv (run cs s) \<and> seq_value s \<le> seq_value (run cs s) \<and>
    (\<forall>r \<in> set (stored_rows (run cs s)). row_id r \<le> seq_value s \<longrightarrow>
       (\<exists>r0 \<in> set (stored_rows s). row_id r0 = row_id r \<and> created_at r0 = created_at r))"
  using assms
proof (induction cs arbitrary: s)
  case Nil
  then show ?case by (auto simp: run_Nil)
next
  case (Cons c cs)
  note step = exec_ids [OF Cons.prems, of c]
  then have inv1: "ids_inv (exec c s)" by blast
  note rest = Cons.IH [OF inv1]
  have "ids_inv (run cs (exec c s))" using rest by blast
  moreover have "seq_value s \<le> seq_value (run cs (exec c s))"
    using step rest by linarith
  moreover have "\<forall>r \<in> set (stored_rows (run cs (exec c s))). row_id r \<le> seq_value s \<longrightarrow>
       (\<exists>r0 \<in> set (stored_rows s). row_id r0 = row_id r \<and> created_at r0 = created_at r)"
  proof (intro ballI impI)
    fix r assume r: "r \<in> set (stored_rows (run cs (exec c s)))" and le: "row_id r \<le> seq_value s"
    from step le have "row_id r \<le> seq_value (exec c s)" by linarith
    with rest r obtain r1 where r1: "r1 \<in> set (stored_rows (exec c s))"
      "row_id r1 = row_id r" "created_at r1 = created_at r" by blast
    with le have "row_id r1 \<le> seq_value s" by simp
    with step r1(1) obtain r0 where "r0 \<in> set (stored_rows s)"
      "row_id r0 = row_id r1" "created_at r0 = created_at r1" by blast
    with r1 show "\<exists>r0 \<in> set (stored_rows s). row_id r0 = row_id r \<and> created_at r0 = created_at r"
      by auto
  qed
  ultimately show ?case by (simp only: run_Cons) 
qed

text \<open>
  C7. Take a store in which the ids grow along the rows and none is beyond the last
  value of the sequence (a new table is such a store). After any sequence of calls the
  same holds, so the ids are pairwise distinct and grow in the order of creation; the
  sequence has not gone back; a row whose id is not beyond the old sequence value is a
  row that was there before, with the same id and the same \<open>created_at\<close>; hence an id
  that the sequence had passed and that no row carried (a deleted one) is carried by
  no row afterwards. \<open>updateTaskInDatabase\<close> leaves the list of ids as it is. The id of
  an inserted row is the next value of the sequence: the caller supplies none.
\<close>

theorem ids_unique_never_reused:
  "(ids_inv s \<longrightarrow>
      ids_inv (run cs s) \<and>
      distinct (map row_id (stored_rows (run cs s))) \<and>
      sorted_wrt (<) (map row_id (stored_rows (run cs s))) \<and>
      seq_value s \<le> seq_value (run cs s) \<and>
      (\<forall>r \<in> set (stored_rows (run cs s)). row_id r \<le> seq_value s \<longrightarrow>
         (\<exists>r0 \<in> set (stored_rows s). row_id r0 = row_id r \<and> created_at r0 = created_at r)) \<and>
      (\<forall>x. x \<le> seq_value s \<and> x \<notin> set (map row_id (stored_rows s)) \<longrightarrow>
         x \<notin> set (map row_id (stored_rows (run cs s))))) \<and>
   ids_inv None \<and>
   ids_inv (snd (tableCreationIfDoesNotExist None)) \<and>
   map row_id (stored_rows (snd (updateTaskInDatabase task s))) = map row_id (stored_rows s) \<and>
   (addNewTaskToDatabase now newTask s = (Inr (), s1) \<longrightarrow>
      (\<exists>r. stored_rows s1 = stored_rows s @ [r] \<and> row_id r = seq_value s + 1 \<and>
            seq_value s1 = row_id r \<and> row_id r \<le> serial_max))"
proof (intro conjI impI)
  assume inv: "ids_inv s"
  note all = run_ids [OF inv, of cs]
  from all show "ids_inv (run cs s)" by blast
  then show "distinct (map row_id (stored_rows (run cs s)))" by (rule ids_inv_distinct)
  from all show "sorted_wrt (<) (map row_id (stored_rows (run cs s)))"
    by (simp add: ids_inv_def)
  from all show "seq_value s \<le> seq_value (run cs s)" by blast
  from all show old: "\<forall>r \<in> set (stored_rows (run cs s)). row_id r \<le> seq_value s \<longrightarrow>
      (\<exists>r0 \<in> set (stored_rows s). row_id r0 = row_id r \<and> created_at r0 = created_at r)"
    by blast
  show "\<forall>x. x \<le> seq_value s \<and> x \<notin> set (map row_id (stored_rows s)) \<longrightarrow>
      x \<notin> set (map row_id (stored_rows (run cs s)))"
  proof (intro allI impI notI)
    fix x assume x: "x \<le> seq_value s \<and> x \<notin> set (map row_id (stored_rows s))"
      and "x \<in> set (map row_id (stored_rows (run cs s)))"
    then obtain r where "r \<in> set (stored_rows (run cs s))" "row_id r = x" by auto
    with old x obtain r0 where "r0 \<in> set (stored_rows s)" "row_id r0 = x" by blast
    with x show False by auto
  qed
next
  show "ids_inv None" by (simp add: ids_inv_def stored_rows_def)
  show "ids_inv (snd (tableCreationIfDoesNotExist None))"
    by (simp add: ids_inv_def) (simp add: stored_rows_def)
  show "map row_id (stored_rows (snd (updateTaskInDatabase task s))) = map row_id (stored_rows s)"
    by (rule update_ids)
next
  assume "addNewTaskToDatabase now newTask s = (Inr (), s1)"
  from add_success [OF this]
  show "\<exists>r. stored_rows s1 = stored_rows s @ [r] \<and> row_id r = seq_value s + 1 \<and>
      seq_value s1 = row_id r \<and> row_id r \<le> serial_max"
    by force
qed

lemma run_example:
  "run [DeleteTask ''2'', AddTask 30 ''Buy eggs'',
        UpdateTask \<lparr>task_id = ''1'', task_title = ''Buy oat milk'', task_status = COMPLETE\<rparr>]
     two_tasks =
   Some \<lparr>rows = [\<lparr>row_id = 1, created_at = 10, status = ''COMPLETE'', title = ''Buy oat milk''\<rparr>,
                 \<lparr>row_id = 3, created_at = 30, status = ''IN_PROGRESS'', title = ''Buy eggs''\<rparr>],
         last_value = 3\<rparr>"
  by (simp add: run_def delete_result update_eq add_eq int4in_1 int4in_2 varchar_coerce_def
      bind_text_def bind_int4_def
      serial_max_def stored_rows_def seq_value_def two_tasks_def milk_def bread_def)

theorem ids_unique_never_reused_witness:
  "ids_inv two_tasks \<and>
   ids_inv (run [DeleteTask ''2'', AddTask 30 ''Buy eggs'',
        UpdateTask \<lparr>task_id = ''1'', task_title = ''Buy oat milk'', task_status = COMPLETE\<rparr>]
     two_tasks) \<and>
   map row_id (stored_rows (run [DeleteTask ''2'', AddTask 30 ''Buy eggs'',
        UpdateTask \<lparr>task_id = ''1'', task_title = ''Buy oat milk'', task_status = COMPLETE\<rparr>]
     two_tasks)) = [1, 3] \<and>
   (2::int) \<le> seq_value (snd (deleteTaskFromDatabase ''2'' two_tasks)) \<and>
   2 \<notin> set (map row_id (stored_rows (snd (deleteTaskFromDatabase ''2'' two_tasks)))) \<and>
   2 \<notin> set (map row_id (stored_rows (run [AddTask 30 ''Buy eggs'']
           (snd (deleteTaskFromDatabase ''2'' two_tasks)))))"
proof -
  let ?cs = "[DeleteTask ''2'', AddTask 30 ''Buy eggs'',
        UpdateTask \<lparr>task_id = ''1'', task_title = ''Buy oat milk'', task_status = COMPLETE\<rparr>]"
  let ?d = "snd (deleteTaskFromDatabase ''2'' two_tasks)"
  have h1: "ids_inv two_tasks"
    by (simp add: ids_inv_def stored_rows_two_tasks milk_def bread_def)
      (simp add: two_tasks_def seq_value_def)
  have d: "?d = Some \<lparr>rows = [milk], last_value = 2\<rparr>"
    by (simp add: delete_result int4in_2 stored_rows_two_tasks milk_def bread_def)
      (simp add: two_tasks_def seq_value_def)
  have h2: "ids_inv ?d"
    unfolding d by (simp add: ids_inv_def stored_rows_def seq_value_def milk_def)
  have h3: "(2::int) \<le> seq_value ?d \<and> 2 \<notin> set (map row_id (stored_rows ?d))"
    unfolding d by (simp add: stored_rows_def seq_value_def milk_def)
  from ids_unique_never_reused [of two_tasks ?cs] h1
  have a: "ids_inv (run ?cs two_tasks)" by blast
  from ids_unique_never_reused [of ?d "[AddTask 30 ''Buy eggs'']"] h2 h3
  have b: "2 \<notin> set (map row_id (stored_rows (run [AddTask 30 ''Buy eggs''] ?d)))" by blast
  have c: "map row_id (stored_rows (run ?cs two_tasks)) = [1, 3]"
    by (simp only: run_example) (simp add: stored_rows_def)
  from h1 a b c h3 show ?thesis by blast
qed

section \<open>The bound of the title column\<close>

lemma varchar_coerce_padded: "varchar_coerce 1024 padded_title = Inr (replicate 1024 (CHR ''a''))"
  by (simp add: varchar_coerce_def padded_title_def)

lemma bind_text_padded: "bind_text padded_title = Inr padded_title"
  by (simp add: bind_text_def padded_title_def)

lemma add_too_long:
  assumes "1024 < length newTask"
    and "\<not> list_all (\<lambda>c. c = CHR '' '') (drop 1024 newTask)"
    and "CHR 0x00 \<notin> set newTask"
  shows "addNewTaskToDatabase now newTask s =
    (Inl (StringDataRightTruncation 1024), snd (tableCreationIfDoesNotExist s))"
  using assms by (simp add: add_eq_bound varchar_coerce_def ensure_snd)

lemma add_no_truncation:
  assumes "varchar_coerce 1024 newTask = Inr ttl"
  shows "fst (addNewTaskToDatabase now newTask s) \<noteq> Inl (StringDataRightTruncation n)"
proof (cases "CHR 0x00 \<in> set newTask")
  case True
  then show ?thesis by (simp add: add_nul)
next
  case False
  with assms show ?thesis by (simp add: add_eq_bound)
qed

lemma add_stores_coerced:
  assumes "varchar_coerce 1024 newTask = Inr ttl"
  shows "addNewTaskToDatabase now newTask s = (Inr (), s1) \<longrightarrow>
           (\<exists>r. stored_rows s1 = stored_rows s @ [r] \<and> title r = ttl)"
    and "CHR 0x00 \<notin> set newTask \<and> seq_value s < serial_max \<and>
         list_all (\<lambda>r. row_id r \<le> seq_value s) (stored_rows s) \<longrightarrow>
           (\<exists>r s2. addNewTaskToDatabase now newTask s = (Inr (), s2) \<and>
              stored_rows s2 = stored_rows s @ [r] \<and> title r = ttl)"
proof -
  show "addNewTaskToDatabase now newTask s = (Inr (), s1) \<longrightarrow>
      (\<exists>r. stored_rows s1 = stored_rows s @ [r] \<and> title r = ttl)"
  proof
    assume "addNewTaskToDatabase now newTask s = (Inr (), s1)"
    from add_success [OF this] assms
    show "\<exists>r. stored_rows s1 = stored_rows s @ [r] \<and> title r = ttl" by force
  qed
  show "CHR 0x00 \<notin> set newTask \<and> seq_value s < serial_max \<and>
      list_all (\<lambda>r. row_id r \<le> seq_value s) (stored_rows s) \<longrightarrow>
        (\<exists>r s2. addNewTaskToDatabase now newTask s = (Inr (), s2) \<and>
           stored_rows s2 = stored_rows s @ [r] \<and> title r = ttl)"
  proof
    assume ok: "CHR 0x00 \<notin> set newTask \<and> seq_value s < serial_max \<and>
      list_all (\<lambda>r. row_id r \<le> seq_value s) (stored_rows s)"
    then have fresh: "seq_value s + 1 \<notin> set (map row_id (stored_rows s))"
      by (auto simp: list_all_iff)
    let ?r = "\<lparr>row_id = seq_value s + 1, created_at = now,
               status = ''IN_PROGRESS'', title = ttl\<rparr>"
    let ?s2 = "Some \<lparr>rows = stored_rows s @ [?r], last_value = seq_value s + 1\<rparr>"
    from ok fresh assms have "addNewTaskToDatabase now newTask s = (Inr (), ?s2)"
      by (simp add: add_eq_bound)
    moreover have "stored_rows ?s2 = stored_rows s @ [?r]" by (simp add: stored_rows_def)
    ultimately show "\<exists>r s2. addNewTaskToDatabase now newTask s = (Inr (), s2) \<and>
        stored_rows s2 = stored_rows s @ [r] \<and> title r = ttl"
      by (intro exI [of _ ?r] exI [of _ ?s2]) simp
  qed
qed

text \<open>
  C10, as stated, fails in its second half: the title made of 1024 letters \<open>a\<close> and one
  space has 1025 characters, and the insert succeeds, storing the 1024 letters. And a
  title of 1026 characters that begins with U+0000 is refused, but when the parameter
  is bound, with the error for that character and not with the error of the column's
  length.
\<close>

theorem title_bound_counterexample:
  "length padded_title = 1025 \<and>
   addNewTaskToDatabase 30 padded_title two_tasks =
     (Inr (), Some \<lparr>rows = [milk, bread,
        \<lparr>row_id = 3, created_at = 30, status = ''IN_PROGRESS'',
          title = replicate 1024 (CHR ''a'')\<rparr>], last_value = 3\<rparr>) \<and>
   length long_nul_title = 1026 \<and>
   fst (addNewTaskToDatabase 30 long_nul_title two_tasks) = Inl CharacterNotInRepertoire"
proof -
  have "length padded_title = 1025" by (simp add: padded_title_def)
  moreover have "seq_value two_tasks = 2" by (simp add: two_tasks_def seq_value_def)
  moreover have "length long_nul_title = 1026" by (simp add: long_nul_title_def)
  moreover have "fst (addNewTaskToDatabase 30 long_nul_title two_tasks) =
      Inl CharacterNotInRepertoire"
    by (simp add: add_nul long_nul_title_def)
  ultimately show ?thesis
    by (simp add: add_eq bind_text_padded varchar_coerce_padded serial_max_def
        stored_rows_two_tasks milk_def bread_def)
qed

text \<open>
  C10, amended. The bound is 1024 characters. A title of at most 1024 characters passes
  the column's length check unchanged: the insert never raises the truncation error,
  a row that it inserts carries the title as given, and it does insert that row when
  the title holds no U+0000, the sequence has a value left and no stored id is beyond
  the sequence. A longer title in which some character after the 1024th is not a space
  makes the insert raise, and the rows and the sequence stay as they were: the error
  is the truncation error of the column, unless the title holds U+0000, which is
  refused when the parameter is bound, before its length is looked at. A longer title
  in which every character after the 1024th is a space is not refused by the column:
  the column takes its first 1024 characters, and that is the title of the row the
  insert adds.
\<close>

theorem title_bound_is_1024:
  "(length newTask \<le> 1024 \<longrightarrow>
      varchar_coerce 1024 newTask = Inr newTask \<and>
      (\<forall>n. fst (addNewTaskToDatabase now newTask s) \<noteq> Inl (StringDataRightTruncation n)) \<and>
      (addNewTaskToDatabase now newTask s = (Inr (), s1) \<longrightarrow>
         (\<exists>r. stored_rows s1 = stored_rows s @ [r] \<and> title r = newTask)) \<and>
      (CHR 0x00 \<notin> set newTask \<and> seq_value s < serial_max \<and>
       list_all (\<lambda>r. row_id r \<le> seq_value s) (stored_rows s) \<longrightarrow>
         (\<exists>r s2. addNewTaskToDatabase now newTask s = (Inr (), s2) \<and>
            stored_rows s2 = stored_rows s @ [r] \<and> title r = newTask))) \<and>
   (1024 < length newTask \<and> \<not> list_all (\<lambda>c. c = CHR '' '') (drop 1024 newTask) \<longrightarrow>
      (\<exists>e. fst (addNewTaskToDatabase now newTask s) = Inl e) \<and>
      stored_rows (snd (addNewTaskToDatabase now newTask s)) = stored_rows s \<and>
      seq_value (snd (addNewTaskToDatabase now newTask s)) = seq_value s \<and>
      (CHR 0x00 \<notin> set newTask \<longrightarrow>
         fst (addNewTaskToDatabase now newTask s) = Inl (StringDataRightTruncation 1024)) \<and>
      (CHR 0x00 \<in> set newTask \<longrightarrow>
         fst (addNewTaskToDatabase now newTask s) = Inl CharacterNotInRepertoire)) \<and>
   (1024 < length newTask \<and> list_all (\<lambda>c. c = CHR '' '') (drop 1024 newTask) \<longrightarrow>
      varchar_coerce 1024 newTask = Inr (take 1024 newTask) \<and>
      (\<forall>n. fst (addNewTaskToDatabase now newTask s) \<noteq> Inl (StringDataRightTruncation n)) \<and>
      (addNewTaskToDatabase now newTask s = (Inr (), s1) \<longrightarrow>
         (\<exists>r. stored_rows s1 = stored_rows s @ [r] \<and> title r = take 1024 newTask)) \<and>
      (CHR 0x00 \<notin> set newTask \<and> seq_value s < serial_max \<and>
       list_all (\<lambda>r. row_id r \<le> seq_value s) (stored_rows s) \<longrightarrow>
         (\<exists>r s2. addNewTaskToDatabase now newTask s = (Inr (), s2) \<and>
            stored_rows s2 = stored_rows s @ [r] \<and> title r = take 1024 newTask)))"
proof (intro conjI)
  show "length newTask \<le> 1024 \<longrightarrow>
      varchar_coerce 1024 newTask = Inr newTask \<and>
      (\<forall>n. fst (addNewTaskToDatabase now newTask s) \<noteq> Inl (StringDataRightTruncation n)) \<and>
      (addNewTaskToDatabase now newTask s = (Inr (), s1) \<longrightarrow>
         (\<exists>r. stored_rows s1 = stored_rows s @ [r] \<and> title r = newTask)) \<and>
      (CHR 0x00 \<notin> set newTask \<and> seq_value s < serial_max \<and>
       list_all (\<lambda>r. row_id r \<le> seq_value s) (stored_rows s) \<longrightarrow>
         (\<exists>r s2. addNewTaskToDatabase now newTask s = (Inr (), s2) \<and>
            stored_rows s2 = stored_rows s @ [r] \<and> title r = newTask))"
  proof
    assume "length newTask \<le> 1024"
    then have fit: "varchar_coerce 1024 newTask = Inr newTask" by (rule varchar_coerce_fits)
    from fit add_no_truncation [OF fit] add_stores_coerced [OF fit]
    show "varchar_coerce 1024 newTask = Inr newTask \<and>
      (\<forall>n. fst (addNewTaskToDatabase now newTask s) \<noteq> Inl (StringDataRightTruncation n)) \<and>
      (addNewTaskToDatabase now newTask s = (Inr (), s1) \<longrightarrow>
         (\<exists>r. stored_rows s1 = stored_rows s @ [r] \<and> title r = newTask)) \<and>
      (CHR 0x00 \<notin> set newTask \<and> seq_value s < serial_max \<and>
       list_all (\<lambda>r. row_id r \<le> seq_value s) (stored_rows s) \<longrightarrow>
         (\<exists>r s2. addNewTaskToDatabase now newTask s = (Inr (), s2) \<and>
            stored_rows s2 = stored_rows s @ [r] \<and> title r = newTask))"
      by blast
  qed
  show "1024 < length newTask \<and> \<not> list_all (\<lambda>c. c = CHR '' '') (drop 1024 newTask) \<longrightarrow>
      (\<exists>e. fst (addNewTaskToDatabase now newTask s) = Inl e) \<and>
      stored_rows (snd (addNewTaskToDatabase now newTask s)) = stored_rows s \<and>
      seq_value (snd (addNewTaskToDatabase now newTask s)) = seq_value s \<and>
      (CHR 0x00 \<notin> set newTask \<longrightarrow>
         fst (addNewTaskToDatabase now newTask s) = Inl (StringDataRightTruncation 1024)) \<and>
      (CHR 0x00 \<in> set newTask \<longrightarrow>
         fst (addNewTaskToDatabase now newTask s) = Inl CharacterNotInRepertoire)"
  proof
    assume long: "1024 < length newTask \<and>
      \<not> list_all (\<lambda>c. c = CHR '' '') (drop 1024 newTask)"
    show "(\<exists>e. fst (addNewTaskToDatabase now newTask s) = Inl e) \<and>
      stored_rows (snd (addNewTaskToDatabase now newTask s)) = stored_rows s \<and>
      seq_value (snd (addNewTaskToDatabase now newTask s)) = seq_value s \<and>
      (CHR 0x00 \<notin> set newTask \<longrightarrow>
         fst (addNewTaskToDatabase now newTask s) = Inl (StringDataRightTruncation 1024)) \<and>
      (CHR 0x00 \<in> set newTask \<longrightarrow>
         fst (addNewTaskToDatabase now newTask s) = Inl CharacterNotInRepertoire)"
    proof (cases "CHR 0x00 \<in> set newTask")
      case True
      then show ?thesis by (simp add: add_nul)
    next
      case False
      with long show ?thesis by (simp add: add_too_long)
    qed
  qed
  show "1024 < length newTask \<and> list_all (\<lambda>c. c = CHR '' '') (drop 1024 newTask) \<longrightarrow>
      varchar_coerce 1024 newTask = Inr (take 1024 newTask) \<and>
      (\<forall>n. fst (addNewTaskToDatabase now newTask s) \<noteq> Inl (StringDataRightTruncation n)) \<and>
      (addNewTaskToDatabase now newTask s = (Inr (), s1) \<longrightarrow>
         (\<exists>r. stored_rows s1 = stored_rows s @ [r] \<and> title r = take 1024 newTask)) \<and>
      (CHR 0x00 \<notin> set newTask \<and> seq_value s < serial_max \<and>
       list_all (\<lambda>r. row_id r \<le> seq_value s) (stored_rows s) \<longrightarrow>
         (\<exists>r s2. addNewTaskToDatabase now newTask s = (Inr (), s2) \<and>
            stored_rows s2 = stored_rows s @ [r] \<and> title r = take 1024 newTask))"
  proof
    assume "1024 < length newTask \<and> list_all (\<lambda>c. c = CHR '' '') (drop 1024 newTask)"
    then have cut: "varchar_coerce 1024 newTask = Inr (take 1024 newTask)"
      by (simp add: varchar_coerce_def)
    from cut add_no_truncation [OF cut] add_stores_coerced [OF cut]
    show "varchar_coerce 1024 newTask = Inr (take 1024 newTask) \<and>
      (\<forall>n. fst (addNewTaskToDatabase now newTask s) \<noteq> Inl (StringDataRightTruncation n)) \<and>
      (addNewTaskToDatabase now newTask s = (Inr (), s1) \<longrightarrow>
         (\<exists>r. stored_rows s1 = stored_rows s @ [r] \<and> title r = take 1024 newTask)) \<and>
      (CHR 0x00 \<notin> set newTask \<and> seq_value s < serial_max \<and>
       list_all (\<lambda>r. row_id r \<le> seq_value s) (stored_rows s) \<longrightarrow>
         (\<exists>r s2. addNewTaskToDatabase now newTask s = (Inr (), s2) \<and>
            stored_rows s2 = stored_rows s @ [r] \<and> title r = take 1024 newTask))"
      by blast
  qed
qed

theorem title_bound_is_1024_witness:
  "length ''Buy milk'' \<le> 1024 \<and> CHR 0x00 \<notin> set ''Buy milk'' \<and>
   seq_value two_tasks < serial_max \<and>
   list_all (\<lambda>r. row_id r \<le> seq_value two_tasks) (stored_rows two_tasks) \<and>
   varchar_coerce 1024 ''Buy milk'' = Inr ''Buy milk'' \<and>
   (\<exists>r s2. addNewTaskToDatabase 30 ''Buy milk'' two_tasks = (Inr (), s2) \<and>
      stored_rows s2 = [milk, bread, r] \<and> title r = ''Buy milk'') \<and>
   1024 < length long_title \<and>
   \<not> list_all (\<lambda>c. c = CHR '' '') (drop 1024 long_title) \<and>
   CHR 0x00 \<notin> set long_title \<and>
   fst (addNewTaskToDatabase 30 long_title two_tasks) = Inl (StringDataRightTruncation 1024) \<and>
   stored_rows (snd (addNewTaskToDatabase 30 long_title two_tasks)) = [milk, bread] \<and>
   1024 < length long_nul_title \<and>
   \<not> list_all (\<lambda>c. c = CHR '' '') (drop 1024 long_nul_title) \<and>
   CHR 0x00 \<in> set long_nul_title \<and>
   fst (addNewTaskToDatabase 30 long_nul_title two_tasks) = Inl CharacterNotInRepertoire \<and>
   1024 < length padded_title \<and>
   list_all (\<lambda>c. c = CHR '' '') (drop 1024 padded_title) \<and>
   CHR 0x00 \<notin> set padded_title \<and>
   (\<exists>r s2. addNewTaskToDatabase 30 padded_title two_tasks = (Inr (), s2) \<and>
      stored_rows s2 = [milk, bread, r] \<and> title r = take 1024 padded_title)"
proof -
  have h1: "length ''Buy milk'' \<le> 1024 \<and> CHR 0x00 \<notin> set ''Buy milk''" by simp
  have st: "seq_value two_tasks < serial_max \<and>
      list_all (\<lambda>r. row_id r \<le> seq_value two_tasks) (stored_rows two_tasks)"
    by (simp add: stored_rows_two_tasks milk_def bread_def)
      (simp add: two_tasks_def seq_value_def serial_max_def)
  have h2: "1024 < length long_title \<and>
      \<not> list_all (\<lambda>c. c = CHR '' '') (drop 1024 long_title) \<and> CHR 0x00 \<notin> set long_title"
    by (simp add: long_title_def list_all_iff)
  have h3: "1024 < length long_nul_title \<and>
      \<not> list_all (\<lambda>c. c = CHR '' '') (drop 1024 long_nul_title) \<and>
      CHR 0x00 \<in> set long_nul_title"
    by (simp add: long_nul_title_def list_all_iff)
  have h4: "1024 < length padded_title \<and>
      list_all (\<lambda>c. c = CHR '' '') (drop 1024 padded_title) \<and> CHR 0x00 \<notin> set padded_title"
    by (simp add: padded_title_def)
  from title_bound_is_1024 [of "''Buy milk''" 30 two_tasks] h1 st
  have a: "varchar_coerce 1024 ''Buy milk'' = Inr ''Buy milk'' \<and>
    (\<exists>r s2. addNewTaskToDatabase 30 ''Buy milk'' two_tasks = (Inr (), s2) \<and>
      stored_rows s2 = stored_rows two_tasks @ [r] \<and> title r = ''Buy milk'')"
    by blast
  from title_bound_is_1024 [of long_title 30 two_tasks] h2
  have b: "fst (addNewTaskToDatabase 30 long_title two_tasks) =
      Inl (StringDataRightTruncation 1024) \<and>
    stored_rows (snd (addNewTaskToDatabase 30 long_title two_tasks)) = stored_rows two_tasks"
    by blast
  from title_bound_is_1024 [of long_nul_title 30 two_tasks] h3
  have c: "fst (addNewTaskToDatabase 30 long_nul_title two_tasks) = Inl CharacterNotInRepertoire"
    by blast
  from title_bound_is_1024 [of padded_title 30 two_tasks] h4 st
  have d: "\<exists>r s2. addNewTaskToDatabase 30 padded_title two_tasks = (Inr (), s2) \<and>
      stored_rows s2 = stored_rows two_tasks @ [r] \<and> title r = take 1024 padded_title"
    by blast
  from h1 st h2 h3 h4 a b c d show ?thesis
    by (simp only: stored_rows_two_tasks append.simps) blast
qed

section \<open>Listing\<close>

lemma list_eq:
  "getTasksFromDatabase s =
     (Inr (take 100 (sort_key (\<lambda>r. - created_at r) (stored_rows s))),
      snd (tableCreationIfDoesNotExist s))"
  by (cases s)
    (simp_all add: action_defs select_tasks_def stored_rows_def)

lemma descending_sort: "descending (sort_key (\<lambda>r. - created_at r) xs)"
proof -
  have "sorted (map (\<lambda>r. - created_at r) (sort_key (\<lambda>r. - created_at r) xs))"
    by (rule sorted_sort_key)
  then show ?thesis by (simp add: descending_def sorted_map)
qed

lemma descending_strict:
  "descending ys \<Longrightarrow> distinct (map created_at ys) \<Longrightarrow> strictly_descending ys"
  unfolding descending_def strictly_descending_def
proof (induction ys)
  case Nil
  then show ?case by simp
next
  case (Cons a ys)
  from Cons.prems have le: "\<forall>x \<in> set ys. created_at x \<le> created_at a"
    and fresh: "created_at a \<notin> created_at ` set ys"
    and tail: "sorted_wrt (\<lambda>a b. created_at b \<le> created_at a) ys"
      "distinct (map created_at ys)"
    by simp_all
  have "created_at x < created_at a" if "x \<in> set ys" for x
  proof -
    from that fresh have "created_at x \<noteq> created_at a" by (metis imageI)
    with le that show ?thesis by (simp add: order_less_le)
  qed
  with Cons.IH [OF tail] show ?case by simp
qed

lemma distinct_created_at_sort:
  "distinct (map created_at (sort_key f xs)) = distinct (map created_at xs)"
proof -
  have "mset (map created_at (sort_key f xs)) = mset (map created_at xs)"
    by simp
  then show ?thesis by (rule mset_eq_imp_distinct_iff)
qed

lemma descending_split:
  assumes "descending ys"
  shows "\<forall>r \<in> set (drop n ys). \<forall>r' \<in> set (take n ys). created_at r \<le> created_at r'"
proof -
  from assms have "descending (take n ys @ drop n ys)" by simp
  then show ?thesis unfolding descending_def sorted_wrt_append by blast
qed

lemma listing_properties:
  fixes xs :: "row list"
  defines "ys \<equiv> sort_key (\<lambda>r. - created_at r) xs"
  shows "length (take 100 ys) = min 100 (length xs)"
    and "descending (take 100 ys)"
    and "mset (take 100 ys) + mset (drop 100 ys) = mset xs"
    and "\<forall>r \<in> set (drop 100 ys). \<forall>r' \<in> set (take 100 ys). created_at r \<le> created_at r'"
    and "distinct (map created_at xs) \<Longrightarrow> strictly_descending (take 100 ys)"
proof -
  have d: "descending ys" unfolding ys_def by (rule descending_sort)
  show "length (take 100 ys) = min 100 (length xs)"
    by (simp add: ys_def min.commute)
  from d show "descending (take 100 ys)"
    by (simp add: descending_def)
  have "mset (take 100 ys) + mset (drop 100 ys) = mset (take 100 ys @ drop 100 ys)"
    by (simp only: mset_append)
  then show "mset (take 100 ys) + mset (drop 100 ys) = mset xs"
    by (simp add: ys_def)
  from d show "\<forall>r \<in> set (drop 100 ys). \<forall>r' \<in> set (take 100 ys). created_at r \<le> created_at r'"
    by (rule descending_split)
  show "strictly_descending (take 100 ys)" if "distinct (map created_at xs)"
  proof -
    from that have "distinct (map created_at ys)"
      by (simp add: ys_def distinct_created_at_sort)
    with d have "strictly_descending ys" by (rule descending_strict)
    then show ?thesis by (simp add: strictly_descending_def)
  qed
qed

text \<open>
  Rows appended with growing clock readings, all later than those of the rows before
  them, are listed first, the last one at the head.
\<close>

lemma filter_same_key:
  "distinct (map g xs) \<Longrightarrow> k \<in> set xs \<Longrightarrow> filter (\<lambda>x. g k = g x) xs = [k]"
proof (induction xs)
  case Nil
  then show ?case by simp
next
  case (Cons a xs)
  show ?case
  proof (cases "k = a")
    case True
    with Cons.prems have "filter (\<lambda>x. g k = g x) xs = []"
      by (auto simp: filter_empty_conv)
    with True show ?thesis by simp
  next
    case False
    with Cons.prems have k: "k \<in> set xs" and "g a \<notin> g ` set xs" by auto
    then have "k \<in> set xs" "g k \<noteq> g a" by (metis, metis imageI)
    with Cons show ?thesis by simp
  qed
qed

lemma sort_newer_appended:
  assumes inc: "sorted_wrt (<) (map created_at new)"
    and later: "\<forall>a \<in> set old. \<forall>b \<in> set new. created_at a < created_at b"
  shows "sort_key (\<lambda>r. - created_at r) (old @ new) =
         rev new @ sort_key (\<lambda>r. - created_at r) old"
proof (rule properties_for_sort_key)
  let ?f = "\<lambda>r. - created_at r"
  show "mset (rev new @ sort_key ?f old) = mset (old @ new)" by simp
  from inc have dist: "distinct (map created_at new)"
    by (simp add: strict_sorted_iff)
  from inc have "sorted_wrt (\<lambda>a b. created_at a < created_at b) new"
    by (simp add: sorted_wrt_map)
  then have "sorted_wrt (\<lambda>a b. - created_at b \<le> - created_at a) new"
    by (rule sorted_wrt_mono_rel [rotated]) simp
  then have "sorted (map ?f (rev new))"
    by (simp add: sorted_map sorted_wrt_rev)
  moreover have "sorted (map ?f (sort_key ?f old))" by (rule sorted_sort_key)
  ultimately show "sorted (map ?f (rev new @ sort_key ?f old))"
    using later by (fastforce simp: sorted_append)
  fix k assume "k \<in> set (rev new @ sort_key ?f old)"
  then consider (new) "k \<in> set new" | (old) "k \<in> set old" by auto
  then show "filter (\<lambda>x. ?f k = ?f x) (rev new @ sort_key ?f old) =
      filter (\<lambda>x. ?f k = ?f x) (old @ new)"
  proof cases
    case new
    from filter_same_key [OF dist new] have one: "filter (\<lambda>x. ?f k = ?f x) new = [k]"
      by simp
    then have "filter (\<lambda>x. ?f k = ?f x) (rev new) = [k]"
      by (simp add: rev_filter [symmetric])
    moreover from new later have "filter (\<lambda>x. ?f k = ?f x) old = []"
      by (fastforce simp: filter_empty_conv)
    moreover have "filter (\<lambda>x. ?f k = ?f x) (sort_key ?f old) = []"
      using new later by (fastforce simp: filter_empty_conv)
    ultimately show ?thesis using one by simp
  next
    case old
    with later have none: "filter (\<lambda>x. ?f k = ?f x) new = []"
      by (fastforce simp: filter_empty_conv)
    then have "filter (\<lambda>x. ?f k = ?f x) (rev new) = []"
      by (simp add: rev_filter [symmetric])
    moreover have "filter (\<lambda>x. ?f k = ?f x) (sort_key ?f old) = filter (\<lambda>x. ?f k = ?f x) old"
      using sort_key_stable [of ?f "?f k" old] by (simp add: eq_commute)
    ultimately show ?thesis using none by simp
  qed
qed

section \<open>Adding a task\<close>

text \<open>
  C3, as stated, fails. The title \<open>Buy milk\<close> is within the bound, but on a table whose
  sequence has handed out its last value \<open>2147483647\<close> the insert raises and no row is
  added; so it does on a table in which a row already carries the next value of the
  sequence. And the title of three characters with U+0000 in the middle is within the
  bound, but the store refuses it and no row is added.
\<close>

theorem addTask_counterexample:
  "length ''Buy milk'' \<le> 1024 \<and>
   addNewTaskToDatabase 30 ''Buy milk'' exhausted = (Inl SequenceExhausted, exhausted) \<and>
   addNewTaskToDatabase 30 ''Buy milk'' id_taken =
     (Inl (UniqueViolation 2), Some \<lparr>rows = [milk, bread], last_value = 2\<rparr>) \<and>
   length nul_title \<le> 1024 \<and>
   addNewTaskToDatabase 30 nul_title two_tasks = (Inl CharacterNotInRepertoire, two_tasks)"
proof -
  have "addNewTaskToDatabase 30 ''Buy milk'' exhausted = (Inl SequenceExhausted, exhausted)"
    by (simp add: add_eq bind_text_def varchar_coerce_def serial_max_def exhausted_def
        seq_value_def stored_rows_def)
  moreover have "addNewTaskToDatabase 30 ''Buy milk'' id_taken =
      (Inl (UniqueViolation 2), Some \<lparr>rows = [milk, bread], last_value = 2\<rparr>)"
    by (simp add: add_eq bind_text_def varchar_coerce_def serial_max_def id_taken_def
        seq_value_def stored_rows_def milk_def bread_def)
  moreover have "addNewTaskToDatabase 30 nul_title two_tasks =
      (Inl CharacterNotInRepertoire, two_tasks)"
    by (simp add: add_nul nul_title_def) (simp add: two_tasks_def tableCreationIfDoesNotExist_def)
  moreover have "length nul_title \<le> 1024" by (simp add: nul_title_def)
  ultimately show ?thesis by simp
qed

text \<open>
  C3, amended. Take a title of at most 1024 characters that holds no U+0000, and a
  store whose sequence has a value left and in which no id is beyond the last value of
  the sequence. Let the store's clock read \<open>call_time\<close> when \<open>addNewTaskToDatabase\<close> is
  called, and let the insert run \<open>elapsed\<close> ticks later (the clock does not go back in
  between), so that \<open>NOW()\<close> is \<open>call_time + elapsed\<close>. Then the action returns without a
  value, and the table has exactly one more row, at the end: its \<open>created_at\<close> is the
  clock reading of the insert, which is at or after the call time; its status is
  \<open>IN_PROGRESS\<close>, its title is the given string and its id is the next value of the
  sequence. A list made right after has the new row at its head when every other row
  has an earlier \<open>created_at\<close>.
\<close>

theorem addTask_inserts_one_row:
  assumes "length newTask \<le> 1024" and "CHR 0x00 \<notin> set newTask"
    and "seq_value s < serial_max"
    and "list_all (\<lambda>r. row_id r \<le> seq_value s) (stored_rows s)"
  shows "\<exists>r s1. addNewTaskToDatabase (call_time + int elapsed) newTask s = (Inr (), s1) \<and>
      stored_rows s1 = stored_rows s @ [r] \<and>
      created_at r = call_time + int elapsed \<and> call_time \<le> created_at r \<and>
      status r = ''IN_PROGRESS'' \<and> title r = newTask \<and> row_id r = seq_value s + 1 \<and>
      ((\<forall>r0 \<in> set (stored_rows s). created_at r0 < created_at r) \<longrightarrow>
         (\<exists>rest. fst (getTasksFromDatabase s1) = Inr (r # rest)))"
proof -
  let ?now = "call_time + int elapsed"
  let ?r = "\<lparr>row_id = seq_value s + 1, created_at = ?now,
             status = ''IN_PROGRESS'', title = newTask\<rparr>"
  let ?s1 = "Some \<lparr>rows = stored_rows s @ [?r], last_value = seq_value s + 1\<rparr>"
  from assms(1,3,4,2) have add: "addNewTaskToDatabase ?now newTask s = (Inr (), ?s1)"
    by (rule add_accepts)
  have rows1: "stored_rows ?s1 = stored_rows s @ [?r]" by (simp add: stored_rows_def)
  have head: "\<exists>rest. fst (getTasksFromDatabase ?s1) = Inr (?r # rest)"
    if newest: "\<forall>r0 \<in> set (stored_rows s). created_at r0 < created_at ?r"
  proof -
    have "sort_key (\<lambda>r. - created_at r) (stored_rows s @ [?r]) =
        rev [?r] @ sort_key (\<lambda>r. - created_at r) (stored_rows s)"
      using newest by (intro sort_newer_appended) simp_all
    then have "fst (getTasksFromDatabase ?s1) =
        Inr (?r # take 99 (sort_key (\<lambda>r. - created_at r) (stored_rows s)))"
      by (simp add: list_eq rows1 del: sort_key_simps)
    then show ?thesis by blast
  qed
  from add rows1 head show ?thesis by (intro exI [of _ ?r] exI [of _ ?s1]) simp
qed

theorem addTask_inserts_one_row_witness:
  "length ''Buy eggs'' \<le> 1024 \<and> CHR 0x00 \<notin> set ''Buy eggs'' \<and>
   seq_value two_tasks < serial_max \<and>
   list_all (\<lambda>r. row_id r \<le> seq_value two_tasks) (stored_rows two_tasks) \<and>
   stored_rows two_tasks = [milk, bread] \<and> created_at milk < 30 \<and> created_at bread < 30 \<and>
   (\<exists>r s1. addNewTaskToDatabase (28 + int 2) ''Buy eggs'' two_tasks = (Inr (), s1) \<and>
      stored_rows s1 = [milk, bread, r] \<and>
      r = \<lparr>row_id = 3, created_at = 30, status = ''IN_PROGRESS'', title = ''Buy eggs''\<rparr> \<and>
      28 \<le> created_at r \<and>
      (\<exists>rest. fst (getTasksFromDatabase s1) = Inr (r # rest)))"
proof -
  have h1: "length ''Buy eggs'' \<le> 1024" by simp
  have h2: "CHR 0x00 \<notin> set ''Buy eggs''" by simp
  have h3: "seq_value two_tasks < serial_max"
    by (simp add: two_tasks_def seq_value_def serial_max_def)
  have h4: "list_all (\<lambda>r. row_id r \<le> seq_value two_tasks) (stored_rows two_tasks)"
    by (simp add: stored_rows_two_tasks milk_def bread_def)
      (simp add: two_tasks_def seq_value_def)
  have sq: "seq_value two_tasks + 1 = 3" by (simp add: two_tasks_def seq_value_def)
  from addTask_inserts_one_row [OF h1 h2 h3 h4, of 28 2]
  obtain r s1 where r: "addNewTaskToDatabase (28 + int 2) ''Buy eggs'' two_tasks = (Inr (), s1)"
    "stored_rows s1 = stored_rows two_tasks @ [r]" "created_at r = 28 + int 2"
    "28 \<le> created_at r"
    "status r = ''IN_PROGRESS''" "title r = ''Buy eggs''" "row_id r = seq_value two_tasks + 1"
    and head: "(\<forall>r0 \<in> set (stored_rows two_tasks). created_at r0 < created_at r) \<longrightarrow>
      (\<exists>rest. fst (getTasksFromDatabase s1) = Inr (r # rest))"
    by blast
  from r(3) have "\<forall>r0 \<in> set (stored_rows two_tasks). created_at r0 < created_at r"
    by (simp add: stored_rows_two_tasks milk_def bread_def)
  with head obtain rest where "fst (getTasksFromDatabase s1) = Inr (r # rest)" by blast
  moreover from r sq have "r = \<lparr>row_id = 3, created_at = 30, status = ''IN_PROGRESS'',
      title = ''Buy eggs''\<rparr>" by simp
  moreover have "created_at milk < 30 \<and> created_at bread < 30"
    by (simp add: milk_def bread_def)
  ultimately show ?thesis using r(1,2,4) h1 h2 h3 h4
    by (simp only: stored_rows_two_tasks append.simps) blast
qed

section \<open>Listing after many inserts\<close>

lemma add_tasks_rows:
  "add_tasks xs s = Inr s1 \<Longrightarrow>
   \<exists>new. stored_rows s1 = stored_rows s @ new \<and> map created_at new = map fst xs"
proof (induction xs arbitrary: s)
  case Nil
  then show ?case by simp
next
  case (Cons x xs)
  obtain now newTask where x: "x = (now, newTask)" by (cases x)
  from Cons.prems x obtain u s' where
    first: "addNewTaskToDatabase now newTask s = (Inr u, s')" and
    rest: "add_tasks xs s' = Inr s1"
    by (auto split: prod.splits sum.splits)
  from add_success [OF first] obtain r where
    r: "stored_rows s' = stored_rows s @ [r]" "created_at r = now" by force
  from Cons.IH [OF rest] obtain new where
    "stored_rows s1 = stored_rows s' @ new" "map created_at new = map fst xs" by blast
  with r x have "stored_rows s1 = stored_rows s @ (r # new) \<and>
      map created_at (r # new) = map fst (x # xs)" by simp
  then show ?case by blast
qed

lemma add_tasks_accepts:
  assumes "\<forall>x \<in> set xs. length (snd x) \<le> 1024 \<and> CHR 0x00 \<notin> set (snd x)" and "ids_inv s"
    and "seq_value s + int (length xs) \<le> serial_max"
  shows "\<exists>s1. add_tasks xs s = Inr s1"
  using assms
proof (induction xs arbitrary: s)
  case Nil
  then show ?case by simp
next
  case (Cons x xs)
  obtain now newTask where x: "x = (now, newTask)" by (cases x)
  from Cons.prems x have len: "length newTask \<le> 1024" and room: "seq_value s < serial_max"
    and clean: "CHR 0x00 \<notin> set newTask"
    by simp_all
  from Cons.prems(2) have "list_all (\<lambda>r. row_id r \<le> seq_value s) (stored_rows s)"
    by (simp add: ids_inv_def)
  from add_accepts [OF len room this clean, of now] obtain s' where
    first: "addNewTaskToDatabase now newTask s = (Inr (), s')" and
    sq: "seq_value s' = seq_value s + 1"
    by (simp add: seq_value_def)
  from exec_ids [OF Cons.prems(2), of "AddTask now newTask"] first
  have inv: "ids_inv s'" by simp
  from Cons.prems(1,3) sq
  have "\<forall>x \<in> set xs. length (snd x) \<le> 1024 \<and> CHR 0x00 \<notin> set (snd x)"
    "seq_value s' + int (length xs) \<le> serial_max" by simp_all
  from Cons.IH [OF this(1) inv this(2)] obtain s1 where "add_tasks xs s' = Inr s1" ..
  with first x show ?case by simp
qed

lemma list_after_inserts:
  assumes "add_tasks xs s = Inr s1" and "length xs = 150"
  shows "\<exists>new rs1 rest1. stored_rows s1 = stored_rows s @ new \<and>
      map created_at new = map fst xs \<and>
      fst (getTasksFromDatabase s1) = Inr rs1 \<and> length rs1 = 100 \<and> descending rs1 \<and>
      mset rs1 + mset rest1 = mset (stored_rows s1) \<and>
      (\<forall>r \<in> set rest1. \<forall>r' \<in> set rs1. created_at r \<le> created_at r') \<and>
      (sorted_wrt (<) (map fst xs) \<and>
       (\<forall>r \<in> set (stored_rows s). \<forall>x \<in> set xs. created_at r < fst x) \<longrightarrow>
         rs1 = rev (drop 50 new))"
proof -
  from add_tasks_rows [OF assms(1)] obtain new where
    new: "stored_rows s1 = stored_rows s @ new" "map created_at new = map fst xs" by blast
  from new(2) assms(2) have len: "length new = 150"
    by (metis length_map)
  let ?ys = "sort_key (\<lambda>r. - created_at r) (stored_rows s1)"
  note props = listing_properties [of "stored_rows s1"]
  have l: "fst (getTasksFromDatabase s1) = Inr (take 100 ?ys)" by (simp add: list_eq)
  have n: "length (take 100 ?ys) = 100"
    using props(1) new(1) len by simp
  have last: "take 100 ?ys = rev (drop 50 new)"
    if "sorted_wrt (<) (map fst xs) \<and>
       (\<forall>r \<in> set (stored_rows s). \<forall>x \<in> set xs. created_at r < fst x)"
  proof -
    from that new(2) have inc: "sorted_wrt (<) (map created_at new)" by simp
    have "set (map created_at new) = set (map fst xs)" by (simp only: new(2))
    with that have later: "\<forall>a \<in> set (stored_rows s). \<forall>b \<in> set new. created_at a < created_at b"
      by (metis (no_types, lifting) image_iff list.set_map)
    from sort_newer_appended [OF inc later]
    have "?ys = rev new @ sort_key (\<lambda>r. - created_at r) (stored_rows s)"
      by (simp only: new(1))
    then have "take 100 ?ys = take 100 (rev new)" using len by simp
    also have "\<dots> = rev (drop 50 new)" using len by (simp add: take_rev)
    finally show ?thesis .
  qed
  from new l n props(2,3,4) last show ?thesis
    by (intro exI [of _ new] exI [of _ "take 100 ?ys"] exI [of _ "drop 100 ?ys"]) blast
qed

text \<open>
  C1. \<open>getTasksFromDatabase\<close> never raises. What it returns has at most 100 rows, as
  many as the table has when those are fewer; it is in descending order of
  \<open>created_at\<close>; its rows are rows of the table, and every row left out has a
  \<open>created_at\<close> that is not later than that of any row returned; when the \<open>created_at\<close>
  values of the table are pairwise distinct the order is strictly descending. After 150
  inserts that went through, whatever the table held before, the list has exactly 100
  rows, none earlier than a row left out; and when the clock readings of the inserts
  grow and are later than every row that was there, the list is the last 100 inserted
  rows, the newest first.
\<close>

theorem listTasks_order_and_cap:
  "(\<exists>rs rest. getTasksFromDatabase s = (Inr rs, snd (tableCreationIfDoesNotExist s)) \<and>
      length rs \<le> 100 \<and> length rs = min 100 (length (stored_rows s)) \<and>
      descending rs \<and>
      mset rs + mset rest = mset (stored_rows s) \<and>
      (\<forall>r \<in> set rest. \<forall>r' \<in> set rs. created_at r \<le> created_at r') \<and>
      (distinct (map created_at (stored_rows s)) \<longrightarrow> strictly_descending rs)) \<and>
   (add_tasks xs s = Inr s1 \<and> length xs = 150 \<longrightarrow>
      (\<exists>new rs1 rest1. stored_rows s1 = stored_rows s @ new \<and>
         map created_at new = map fst xs \<and>
         fst (getTasksFromDatabase s1) = Inr rs1 \<and> length rs1 = 100 \<and> descending rs1 \<and>
         mset rs1 + mset rest1 = mset (stored_rows s1) \<and>
         (\<forall>r \<in> set rest1. \<forall>r' \<in> set rs1. created_at r \<le> created_at r') \<and>
         (sorted_wrt (<) (map fst xs) \<and>
          (\<forall>r \<in> set (stored_rows s). \<forall>x \<in> set xs. created_at r < fst x) \<longrightarrow>
            rs1 = rev (drop 50 new))))"
proof (intro conjI impI)
  let ?ys = "sort_key (\<lambda>r. - created_at r) (stored_rows s)"
  note props = listing_properties [of "stored_rows s"]
  have "length (take 100 ?ys) \<le> 100" by simp
  with props list_eq [of s]
  show "\<exists>rs rest. getTasksFromDatabase s = (Inr rs, snd (tableCreationIfDoesNotExist s)) \<and>
      length rs \<le> 100 \<and> length rs = min 100 (length (stored_rows s)) \<and>
      descending rs \<and>
      mset rs + mset rest = mset (stored_rows s) \<and>
      (\<forall>r \<in> set rest. \<forall>r' \<in> set rs. created_at r \<le> created_at r') \<and>
      (distinct (map created_at (stored_rows s)) \<longrightarrow> strictly_descending rs)"
    by (intro exI [of _ "take 100 ?ys"] exI [of _ "drop 100 ?ys"]) blast
next
  assume "add_tasks xs s = Inr s1 \<and> length xs = 150"
  then have "add_tasks xs s = Inr s1" "length xs = 150" by simp_all
  then show "\<exists>new rs1 rest1. stored_rows s1 = stored_rows s @ new \<and>
         map created_at new = map fst xs \<and>
         fst (getTasksFromDatabase s1) = Inr rs1 \<and> length rs1 = 100 \<and> descending rs1 \<and>
         mset rs1 + mset rest1 = mset (stored_rows s1) \<and>
         (\<forall>r \<in> set rest1. \<forall>r' \<in> set rs1. created_at r \<le> created_at r') \<and>
         (sorted_wrt (<) (map fst xs) \<and>
          (\<forall>r \<in> set (stored_rows s). \<forall>x \<in> set xs. created_at r < fst x) \<longrightarrow>
            rs1 = rev (drop 50 new))"
    by (rule list_after_inserts)
qed

theorem listTasks_order_and_cap_witness:
  "distinct (map created_at (stored_rows two_tasks)) \<and>
   getTasksFromDatabase two_tasks = (Inr [bread, milk], two_tasks) \<and>
   strictly_descending [bread, milk] \<and>
   length hundred_fifty = 150 \<and> sorted_wrt (<) (map fst hundred_fifty) \<and>
   stored_rows None = [] \<and>
   (\<exists>s1 rs1. add_tasks hundred_fifty None = Inr s1 \<and>
      fst (getTasksFromDatabase s1) = Inr rs1 \<and> length rs1 = 100 \<and>
      map created_at rs1 = rev (map int [51..<151]))"
proof -
  have h1: "distinct (map created_at (stored_rows two_tasks))"
    by (simp add: stored_rows_two_tasks milk_def bread_def)
  have l2: "getTasksFromDatabase two_tasks = (Inr [bread, milk], two_tasks)"
    by (simp add: list_eq stored_rows_two_tasks milk_def bread_def)
      (simp add: two_tasks_def tableCreationIfDoesNotExist_def)
  from listTasks_order_and_cap [of two_tasks] h1 l2
  have strict: "strictly_descending [bread, milk]" by auto
  have h2: "length hundred_fifty = 150" by (simp add: hundred_fifty_def)
  have fsts: "map fst hundred_fifty = map int [1..<151]"
    by (simp add: hundred_fifty_def comp_def)
  have h3: "sorted_wrt (<) (map fst hundred_fifty)"
    unfolding fsts by (simp add: sorted_wrt_map)
  have h4: "\<forall>r \<in> set (stored_rows None). \<forall>x \<in> set hundred_fifty. created_at r < fst x"
    by (simp add: stored_rows_def)
  have "\<exists>s1. add_tasks hundred_fifty None = Inr s1"
  proof (rule add_tasks_accepts)
    show "\<forall>x \<in> set hundred_fifty. length (snd x) \<le> 1024 \<and> CHR 0x00 \<notin> set (snd x)"
      by (auto simp: hundred_fifty_def)
    show "ids_inv None" by (simp add: ids_inv_def stored_rows_def)
    show "seq_value None + int (length hundred_fifty) \<le> serial_max"
      by (simp add: h2 seq_value_def serial_max_def)
  qed
  then obtain s1 where h5: "add_tasks hundred_fifty None = Inr s1" ..
  from listTasks_order_and_cap [of None hundred_fifty s1] h5 h2 h3 h4
  obtain new rs1 where new: "map created_at new = map fst hundred_fifty"
    and rs1: "fst (getTasksFromDatabase s1) = Inr rs1" "length rs1 = 100"
      "rs1 = rev (drop 50 new)"
    by blast
  have "map created_at rs1 = rev (drop 50 (map created_at new))"
    by (simp add: rs1(3) rev_map drop_map)
  also have "\<dots> = rev (map int [51..<151])"
    by (simp add: new fsts drop_map)
  finally have "map created_at rs1 = rev (map int [51..<151])" .
  moreover have "stored_rows None = []" by (simp add: stored_rows_def)
  ultimately show ?thesis using h1 l2 strict h2 h3 h5 rs1 by blast
qed

section \<open>The handlers of the page\<close>

lemma action_keeps_table:
  "snd (addNewTaskToDatabase now newTask s) \<noteq> None"
  "snd (updateTaskInDatabase task s) \<noteq> None"
  "snd (deleteTaskFromDatabase taskId s) \<noteq> None"
  by (cases s;
      auto simp: action_defs insert_task_def update_task_def delete_task_def Let_def
        split: sum.splits)+

lemma list_on_table:
  "s \<noteq> None \<Longrightarrow>
   getTasksFromDatabase s =
     (Inr (take 100 (sort_key (\<lambda>r. - created_at r) (stored_rows s))), s)"
  by (cases s) (simp_all add: list_eq tableCreationIfDoesNotExist_def)

lemma getTasks_on_table:
  "s \<noteq> None \<Longrightarrow>
   getTasks (p, s) =
     (None, (p\<lparr>tasks := take 100 (sort_key (\<lambda>r. - created_at r) (stored_rows s))\<rparr>, s))"
  by (simp add: getTasks_def list_on_table)

lemma mutate_then_refetch:
  assumes "\<And>s. snd (a s) \<noteq> None"
  shows "perform (call_action a # getTasks # fs) (p, s) =
    (case a s of
       (Inl e, s1) \<Rightarrow> [(Some e, (p, s1))]
     | (Inr u, s1) \<Rightarrow>
         (None, (p, s1)) #
         (None, (p\<lparr>tasks := take 100 (sort_key (\<lambda>r. - created_at r) (stored_rows s1))\<rparr>, s1)) #
         perform fs
           (p\<lparr>tasks := take 100 (sort_key (\<lambda>r. - created_at r) (stored_rows s1))\<rparr>, s1))"
proof (cases "a s")
  case (Pair res s1)
  with assms [of s] have s1: "s1 \<noteq> None" by simp
  show ?thesis
  proof (cases res)
    case (Inl e)
    with Pair show ?thesis by (simp add: call_action_def)
  next
    case (Inr u)
    with Pair s1 show ?thesis by (simp add: call_action_def getTasks_on_table)
  qed
qed

lemma handleSubmit_eq:
  "handleSubmit now (p, s) =
    (case addNewTaskToDatabase now (newTaskTitle p) s of
       (Inl e, s1) \<Rightarrow> [(Some e, (p, s1))]
     | (Inr u, s1) \<Rightarrow>
         [(None, (p, s1)),
          (None, (p\<lparr>tasks := take 100 (sort_key (\<lambda>r. - created_at r) (stored_rows s1))\<rparr>, s1)),
          (None, (p\<lparr>tasks := take 100 (sort_key (\<lambda>r. - created_at r) (stored_rows s1)),
                     newTaskTitle := []\<rparr>, s1))])"
  unfolding handleSubmit_def fst_conv
  by (subst mutate_then_refetch)
    (simp_all add: action_keeps_table setNewTaskTitle_def split: prod.splits sum.splits)

lemma updateTask_eq:
  "updateTask task newTaskValues (p, s) =
    (case updateTaskInDatabase (spread task newTaskValues) s of
       (Inl e, s1) \<Rightarrow> [(Some e, (p, s1))]
     | (Inr u, s1) \<Rightarrow>
         [(None, (p, s1)),
          (None, (p\<lparr>tasks := take 100 (sort_key (\<lambda>r. - created_at r) (stored_rows s1))\<rparr>, s1))])"
  unfolding updateTask_def
  by (subst mutate_then_refetch)
    (simp_all add: action_keeps_table split: prod.splits sum.splits)

lemma deleteTask_eq:
  "deleteTask taskId (p, s) =
    (case deleteTaskFromDatabase taskId s of
       (Inl e, s1) \<Rightarrow> [(Some e, (p, s1))]
     | (Inr u, s1) \<Rightarrow>
         [(None, (p, s1)),
          (None, (p\<lparr>tasks := take 100 (sort_key (\<lambda>r. - created_at r) (stored_rows s1))\<rparr>, s1))])"
  unfolding deleteTask_def
  by (subst mutate_then_refetch)
    (simp_all add: action_keeps_table split: prod.splits sum.splits)

lemma handleSubmit_clears_last:
  assumes "i < length (handleSubmit now (p, s))"
    and "newTaskTitle (fst (snd (handleSubmit now (p, s) ! i))) \<noteq> newTaskTitle p"
  shows "i = 2 \<and> fst (addNewTaskToDatabase now (newTaskTitle p) s) = Inr () \<and>
         fst (getTasksFromDatabase (snd (addNewTaskToDatabase now (newTaskTitle p) s))) =
           Inr (tasks (fst (snd (handleSubmit now (p, s) ! i)))) \<and>
         snd (snd (handleSubmit now (p, s) ! i)) =
           snd (addNewTaskToDatabase now (newTaskTitle p) s)"
proof (cases "addNewTaskToDatabase now (newTaskTitle p) s")
  case (Pair res s1)
  from action_keeps_table(1) [of now "newTaskTitle p" s] Pair have s1: "s1 \<noteq> None" by simp
  show ?thesis
  proof (cases res)
    case (Inl e)
    with Pair assms show ?thesis by (simp add: handleSubmit_eq)
  next
    case (Inr u)
    with Pair have tr: "handleSubmit now (p, s) =
        [(None, (p, s1)),
         (None, (p\<lparr>tasks := take 100 (sort_key (\<lambda>r. - created_at r) (stored_rows s1))\<rparr>, s1)),
         (None, (p\<lparr>tasks := take 100 (sort_key (\<lambda>r. - created_at r) (stored_rows s1)),
                    newTaskTitle := []\<rparr>, s1))]"
      by (simp add: handleSubmit_eq)
    from assms(1) tr have "i = 0 \<or> i = 1 \<or> i = 2" by auto
    with assms(2) tr have i: "i = 2" by auto
    with tr Pair Inr s1 show ?thesis by (simp add: list_on_table)
  qed
qed

text \<open>
  C9. Each of the three handlers runs its mutation first. When the mutation raises,
  nothing else runs: the page is as it was. When it returns, the list is fetched from
  the store the mutation left, with no test in between, and \<open>tasks\<close> becomes that list;
  \<open>handleSubmit\<close> then, and only then, empties \<open>newTaskTitle\<close>. So at every point of
  \<open>handleSubmit\<close> where the input field differs from what it held at the start, the
  point is the third and last one, the insert has returned without error, and \<open>tasks\<close>
  is the list fetched after the insert.
\<close>

theorem handlers_mutate_then_refetch:
  "handleSubmit now (p, s) =
    (case addNewTaskToDatabase now (newTaskTitle p) s of
       (Inl e, s1) \<Rightarrow> [(Some e, (p, s1))]
     | (Inr u, s1) \<Rightarrow>
         [(None, (p, s1)),
          (None, (p\<lparr>tasks := take 100 (sort_key (\<lambda>r. - created_at r) (stored_rows s1))\<rparr>, s1)),
          (None, (p\<lparr>tasks := take 100 (sort_key (\<lambda>r. - created_at r) (stored_rows s1)),
                     newTaskTitle := []\<rparr>, s1))]) \<and>
   updateTask task newTaskValues (p, s) =
    (case updateTaskInDatabase (spread task newTaskValues) s of
       (Inl e, s1) \<Rightarrow> [(Some e, (p, s1))]
     | (Inr u, s1) \<Rightarrow>
         [(None, (p, s1)),
          (None, (p\<lparr>tasks := take 100 (sort_key (\<lambda>r. - created_at r) (stored_rows s1))\<rparr>, s1))]) \<and>
   deleteTask taskId (p, s) =
    (case deleteTaskFromDatabase taskId s of
       (Inl e, s1) \<Rightarrow> [(Some e, (p, s1))]
     | (Inr u, s1) \<Rightarrow>
         [(None, (p, s1)),
          (None, (p\<lparr>tasks := take 100 (sort_key (\<lambda>r. - created_at r) (stored_rows s1))\<rparr>, s1))]) \<and>
   (\<forall>s1. s1 \<noteq> None \<longrightarrow>
      fst (getTasksFromDatabase s1) =
        Inr (take 100 (sort_key (\<lambda>r. - created_at r) (stored_rows s1)))) \<and>
   snd (addNewTaskToDatabase now (newTaskTitle p) s) \<noteq> None \<and>
   snd (updateTaskInDatabase (spread task newTaskValues) s) \<noteq> None \<and>
   snd (deleteTaskFromDatabase taskId s) \<noteq> None \<and>
   (\<forall>i < length (handleSubmit now (p, s)).
      newTaskTitle (fst (snd (handleSubmit now (p, s) ! i))) \<noteq> newTaskTitle p \<longrightarrow>
        i = 2 \<and> fst (addNewTaskToDatabase now (newTaskTitle p) s) = Inr () \<and>
        fst (getTasksFromDatabase (snd (addNewTaskToDatabase now (newTaskTitle p) s))) =
          Inr (tasks (fst (snd (handleSubmit now (p, s) ! i)))) \<and>
        snd (snd (handleSubmit now (p, s) ! i)) =
          snd (addNewTaskToDatabase now (newTaskTitle p) s))"
proof (intro conjI allI impI)
  show "handleSubmit now (p, s) =
    (case addNewTaskToDatabase now (newTaskTitle p) s of
       (Inl e, s1) \<Rightarrow> [(Some e, (p, s1))]
     | (Inr u, s1) \<Rightarrow>
         [(None, (p, s1)),
          (None, (p\<lparr>tasks := take 100 (sort_key (\<lambda>r. - created_at r) (stored_rows s1))\<rparr>, s1)),
          (None, (p\<lparr>tasks := take 100 (sort_key (\<lambda>r. - created_at r) (stored_rows s1)),
                     newTaskTitle := []\<rparr>, s1))])"
    by (rule handleSubmit_eq)
  show "updateTask task newTaskValues (p, s) =
    (case updateTaskInDatabase (spread task newTaskValues) s of
       (Inl e, s1) \<Rightarrow> [(Some e, (p, s1))]
     | (Inr u, s1) \<Rightarrow>
         [(None, (p, s1)),
          (None, (p\<lparr>tasks := take 100 (sort_key (\<lambda>r. - created_at r) (stored_rows s1))\<rparr>, s1))])"
    by (rule updateTask_eq)
  show "deleteTask taskId (p, s) =
    (case deleteTaskFromDatabase taskId s of
       (Inl e, s1) \<Rightarrow> [(Some e, (p, s1))]
     | (Inr u, s1) \<Rightarrow>
         [(None, (p, s1)),
          (None, (p\<lparr>tasks := take 100 (sort_key (\<lambda>r. - created_at r) (stored_rows s1))\<rparr>, s1))])"
    by (rule deleteTask_eq)
  show "fst (getTasksFromDatabase s1) =
      Inr (take 100 (sort_key (\<lambda>r. - created_at r) (stored_rows s1)))" for s1
    by (simp add: list_eq)
  show "snd (addNewTaskToDatabase now (newTaskTitle p) s) \<noteq> None"
    "snd (updateTaskInDatabase (spread task newTaskValues) s) \<noteq> None"
    "snd (deleteTaskFromDatabase taskId s) \<noteq> None"
    by (rule action_keeps_table)+
next
  fix i
  assume "i < length (handleSubmit now (p, s))"
    and "newTaskTitle (fst (snd (handleSubmit now (p, s) ! i))) \<noteq> newTaskTitle p"
  from handleSubmit_clears_last [OF this]
  show "i = 2"
    and "fst (addNewTaskToDatabase now (newTaskTitle p) s) = Inr ()"
    and "fst (getTasksFromDatabase (snd (addNewTaskToDatabase now (newTaskTitle p) s))) =
          Inr (tasks (fst (snd (handleSubmit now (p, s) ! i))))"
    and "snd (snd (handleSubmit now (p, s) ! i)) =
          snd (addNewTaskToDatabase now (newTaskTitle p) s)"
    by blast+
qed

lemma add_eggs:
  "addNewTaskToDatabase 30 ''Buy eggs'' two_tasks =
     (Inr (), Some \<lparr>rows = [milk, bread, eggs], last_value = 3\<rparr>)"
  by (simp add: add_eq bind_text_def varchar_coerce_def serial_max_def stored_rows_two_tasks
      eggs_def milk_def bread_def)
    (simp add: two_tasks_def seq_value_def)

theorem handlers_mutate_then_refetch_witness:
  "handleSubmit 30 (typing_eggs, two_tasks) =
     [(None, (typing_eggs, Some \<lparr>rows = [milk, bread, eggs], last_value = 3\<rparr>)),
      (None, (typing_eggs\<lparr>tasks := [eggs, bread, milk]\<rparr>,
              Some \<lparr>rows = [milk, bread, eggs], last_value = 3\<rparr>)),
      (None, (typing_eggs\<lparr>tasks := [eggs, bread, milk], newTaskTitle := []\<rparr>,
              Some \<lparr>rows = [milk, bread, eggs], last_value = 3\<rparr>))] \<and>
   2 < length (handleSubmit 30 (typing_eggs, two_tasks)) \<and>
   newTaskTitle (fst (snd (handleSubmit 30 (typing_eggs, two_tasks) ! 2))) \<noteq>
     newTaskTitle typing_eggs \<and>
   fst (addNewTaskToDatabase 30 (newTaskTitle typing_eggs) two_tasks) = Inr () \<and>
   fst (getTasksFromDatabase (snd (addNewTaskToDatabase 30 (newTaskTitle typing_eggs) two_tasks))) =
     Inr [eggs, bread, milk]"
proof -
  note main = handlers_mutate_then_refetch [of 30 typing_eggs two_tasks]
  have title: "newTaskTitle typing_eggs = ''Buy eggs''" by (simp add: typing_eggs_def)
  have order: "take 100 (sort_key (\<lambda>r. - created_at r) [milk, bread, eggs]) = [eggs, bread, milk]"
    by (simp add: milk_def bread_def eggs_def)
  from main have tr: "handleSubmit 30 (typing_eggs, two_tasks) =
     [(None, (typing_eggs, Some \<lparr>rows = [milk, bread, eggs], last_value = 3\<rparr>)),
      (None, (typing_eggs\<lparr>tasks := [eggs, bread, milk]\<rparr>,
              Some \<lparr>rows = [milk, bread, eggs], last_value = 3\<rparr>)),
      (None, (typing_eggs\<lparr>tasks := [eggs, bread, milk], newTaskTitle := []\<rparr>,
              Some \<lparr>rows = [milk, bread, eggs], last_value = 3\<rparr>))]"
    by (simp add: title add_eggs stored_rows_def order del: sort_key_simps)
  have len: "2 < length (handleSubmit 30 (typing_eggs, two_tasks))"
    by (simp add: tr)
  have cleared: "newTaskTitle (fst (snd (handleSubmit 30 (typing_eggs, two_tasks) ! 2))) \<noteq>
      newTaskTitle typing_eggs"
    by (simp add: tr title)
  from main len cleared
  have "fst (addNewTaskToDatabase 30 (newTaskTitle typing_eggs) two_tasks) = Inr () \<and>
    fst (getTasksFromDatabase (snd (addNewTaskToDatabase 30 (newTaskTitle typing_eggs) two_tasks))) =
      Inr (tasks (fst (snd (handleSubmit 30 (typing_eggs, two_tasks) ! 2))))"
    by blast
  then have "fst (addNewTaskToDatabase 30 (newTaskTitle typing_eggs) two_tasks) = Inr () \<and>
    fst (getTasksFromDatabase (snd (addNewTaskToDatabase 30 (newTaskTitle typing_eggs) two_tasks))) =
      Inr [eggs, bread, milk]"
    by (simp add: tr)
  with tr len cleared show ?thesis by blast
qed

end
